theory Spec2Isabelle
  imports Main "HOL-Library.Word"
begin

section \<open>Bytes, readers and I/O errors\<close>

text \<open>
  A Go \<open>byte\<close> is an 8-bit value and a Go \<open>string\<close> is a sequence of bytes, so both
  \<open>[]byte\<close> and \<open>string\<close> are lists of \<open>char\<close> (256 values); \<open>of_char\<close> reads a byte
  as a number.
\<close>

type_synonym byte = char

definition CR :: byte where "CR = CHR 0x0D"
definition LF :: byte where "LF = CHR 0x0A"

text \<open>
  The errors a read can end with: \<open>io.EOF\<close>, \<open>io.ErrUnexpectedEOF\<close>, and \<open>ErrIO\<close> for
  any other error of the underlying file.
\<close>

datatype io_error = EOF | ErrUnexpectedEOF | ErrIO

text \<open>
  The \<open>bufio.Reader\<close> over the input file: the bytes not yet consumed, and how the file
  answers a read after its last byte (\<open>fault = False\<close>: \<open>io.EOF\<close>; \<open>fault = True\<close>:
  another error). That answer is taken to stay the same when the read is repeated.
\<close>

record reader =
  rest :: "byte list"
  fault :: bool

definition endErr :: "reader \<Rightarrow> io_error" where
  "endErr r = (if fault r then ErrIO else EOF)"

text \<open>\<open>r.Peek(2)\<close>: the next two bytes without consuming them.\<close>

definition Peek2 :: "reader \<Rightarrow> io_error + (byte \<times> byte)" where
  "Peek2 r = (case rest r of
      b0 # b1 # _ \<Rightarrow> Inr (b0, b1)
    | _ \<Rightarrow> Inl (endErr r))"

text \<open>\<open>r.ReadByte()\<close>.\<close>

definition ReadByte :: "reader \<Rightarrow> io_error + (byte \<times> reader)" where
  "ReadByte r = (case rest r of
      [] \<Rightarrow> Inl (endErr r)
    | b # bs \<Rightarrow> Inr (b, r\<lparr>rest := bs\<rparr>))"

text \<open>\<open>r.Discard(n)\<close>: fails with the file's end condition when fewer than \<open>n\<close> bytes are left.\<close>

definition Discard :: "nat \<Rightarrow> reader \<Rightarrow> io_error + reader" where
  "Discard n r = (if n \<le> length (rest r) then Inr (r\<lparr>rest := drop n (rest r)\<rparr>)
                  else Inl (endErr r))"

text \<open>\<open>io.ReadAll(r)\<close>: everything up to the end of the file; \<open>io.EOF\<close> is not an error.\<close>

definition ReadAll :: "reader \<Rightarrow> byte list \<times> io_error option \<times> reader" where
  "ReadAll r = (rest r, (if fault r then Some ErrIO else None), r\<lparr>rest := []\<rparr>)"

text \<open>
  \<open>io.ReadFull(r, buf)\<close> with \<open>len(buf) = n\<close>: an empty buffer is filled without reading;
  a short read is \<open>io.EOF\<close> when no byte was read and \<open>io.ErrUnexpectedEOF\<close> otherwise.
\<close>

definition ReadFull :: "nat \<Rightarrow> reader \<Rightarrow> io_error + (byte list \<times> reader)" where
  "ReadFull n r =
     (if n \<le> length (rest r) then Inr (take n (rest r), r\<lparr>rest := drop n (rest r)\<rparr>)
      else if fault r then Inl ErrIO
      else if rest r = [] then Inl EOF
      else Inl ErrUnexpectedEOF)"

text \<open>
  \<open>binary.Read(r, binary.BigEndian, &v)\<close> for a \<open>uint16\<close>: two bytes through
  \<open>io.ReadFull\<close>, the first one the high byte. The value is below \<open>65536\<close>.
\<close>

definition ReadUint16 :: "reader \<Rightarrow> io_error + (nat \<times> reader)" where
  "ReadUint16 r = (case ReadFull 2 r of
      Inl e \<Rightarrow> Inl e
    | Inr (bs, r') \<Rightarrow> Inr (of_char (bs ! 0) * 256 + of_char (bs ! 1), r'))"

section \<open>Utility functions of the container reader\<close>

text \<open>
  \<open>readUpToCRLF\<close> (main.go 353-373). The loop peeks at two bytes; at CR LF it returns the
  line \<^emph>\<open>without consuming\<close> the two bytes; at the end of the file it returns what is
  left; otherwise it moves one byte into the line.
\<close>

function readUpToCRLF_loop :: "byte list \<Rightarrow> reader \<Rightarrow> io_error + (byte list \<times> reader)" where
  "readUpToCRLF_loop line r =
     (case Peek2 r of
        Inl err \<Rightarrow>
          (if err = EOF \<or> err = ErrUnexpectedEOF then
             (case ReadAll r of
                (remaining, None, r') \<Rightarrow> Inr (line @ remaining, r')
              | (remaining, Some readErr, r') \<Rightarrow> Inl readErr)
           else Inl err)
      | Inr (p0, p1) \<Rightarrow>
          (if p0 = CR \<and> p1 = LF then Inr (line, r)
           else (case ReadByte r of
                   Inl err \<Rightarrow> Inl err
                 | Inr (b, r') \<Rightarrow> readUpToCRLF_loop (line @ [b]) r')))"
  by pat_completeness auto
termination
  by (relation "measure (\<lambda>(line, r). length (rest r))")
     (auto simp: ReadByte_def split: list.splits)

definition readUpToCRLF :: "reader \<Rightarrow> io_error + (byte list \<times> reader)" where
  "readUpToCRLF r = readUpToCRLF_loop [] r"

text \<open>
  \<open>readZlibStr\<close> (main.go 375-385): a big-endian \<open>uint16\<close> length and that many raw
  bytes. Nothing is decompressed here. Its two errors keep their cause.
\<close>

datatype zstr_error = LengthUnreadable io_error | DataUnreadable nat io_error

definition readZlibStr :: "reader \<Rightarrow> zstr_error + (byte list \<times> reader)" where
  "readZlibStr r = (case ReadUint16 r of
      Inl e \<Rightarrow> Inl (LengthUnreadable e)
    | Inr (len, r1) \<Rightarrow>
        (case ReadFull len r1 of
           Inl e \<Rightarrow> Inl (DataUnreadable len e)
         | Inr (data, r2) \<Rightarrow> Inr (data, r2)))"

section \<open>Container layout\<close>

text \<open>
  The pieces a container is made of, used to describe inputs: a two-byte big-endian
  length, a length-prefixed block, and a field that contains no CR LF pair.
\<close>

definition u16be :: "nat \<Rightarrow> byte list" where
  "u16be n = [char_of (n div 256), char_of (n mod 256)]"

definition frame :: "byte list \<Rightarrow> byte list" where
  "frame p = u16be (length p) @ p"

fun hasCRLF :: "byte list \<Rightarrow> bool" where
  "hasCRLF (c # d # ds) = ((c = CR \<and> d = LF) \<or> hasCRLF (d # ds))"
| "hasCRLF _ = False"

section \<open>Library functions used by the line parser\<close>

subsection \<open>strconv\<close>

datatype num_error = ErrSyntax | ErrRange

definition isDigit :: "char \<Rightarrow> bool" where
  "isDigit c = (48 \<le> (of_char c :: nat) \<and> (of_char c :: nat) \<le> 57)"

definition digitVal :: "char \<Rightarrow> nat" where
  "digitVal c = of_char c - 48"

text \<open>
  The digit loop of \<open>strconv.ParseUint(s, 10, bitSize)\<close>, with \<open>maxVal = 2^bitSize - 1\<close>.
  In base 10 every byte that is not a decimal digit is a syntax error (a letter is a digit
  value of at least 10, an underscore is only accepted with base 0). The accumulator is a
  \<open>uint64\<close>: \<open>cutoff\<close> is the least value whose tenfold overflows it, and adding the digit
  wraps modulo \<open>2^64\<close>. A syntax error returns 0, a range error returns \<open>maxVal\<close>.
\<close>

definition cutoff :: nat where
  "cutoff = (2 ^ 64 - 1) div 10 + 1"

fun ParseUint_loop :: "nat \<Rightarrow> nat \<Rightarrow> string \<Rightarrow> nat \<times> num_error option" where
  "ParseUint_loop maxVal n [] = (n, None)"
| "ParseUint_loop maxVal n (c # cs) =
     (if \<not> isDigit c then (0, Some ErrSyntax)
      else if n \<ge> cutoff then (maxVal, Some ErrRange)
      else (let n10 = n * 10;
                n1 = (n10 + digitVal c) mod 2 ^ 64
            in if n1 < n10 \<or> n1 > maxVal then (maxVal, Some ErrRange)
               else ParseUint_loop maxVal n1 cs))"

definition ParseUint :: "string \<Rightarrow> nat \<Rightarrow> nat \<times> num_error option" where
  "ParseUint s bitSize =
     (if s = [] then (0, Some ErrSyntax) else ParseUint_loop (2 ^ bitSize - 1) 0 s)"

text \<open>
  \<open>strconv.ParseInt(s, 10, 0)\<close> on a platform whose \<open>int\<close> has 64 bits: an optional sign,
  then \<open>ParseUint\<close> on the rest. A syntax error returns 0; a magnitude out of range
  returns the nearest bound of \<open>int64\<close> together with the range error.
\<close>

definition ParseInt :: "string \<Rightarrow> int \<times> num_error option" where
  "ParseInt s =
     (if s = [] then (0, Some ErrSyntax)
      else (let neg = (hd s = CHR ''-'');
                s' = (if hd s = CHR ''+'' \<or> hd s = CHR ''-'' then tl s else s)
            in case ParseUint s' 64 of
                 (un, Some ErrSyntax) \<Rightarrow> (0, Some ErrSyntax)
               | (un, err) \<Rightarrow>
                   if \<not> neg \<and> un \<ge> 2 ^ 63 then (2 ^ 63 - 1, Some ErrRange)
                   else if neg \<and> un > 2 ^ 63 then (- (2 ^ 63), Some ErrRange)
                   else (if neg then - int un else int un, None)))"

text \<open>
  \<open>strconv.Atoi\<close>: its fast path for short strings computes what \<open>ParseInt(s, 10, 0)\<close>
  computes, and longer strings go to \<open>ParseInt\<close>. It returns a value \<^emph>\<open>and\<close> an error.
\<close>

definition Atoi :: "string \<Rightarrow> int \<times> num_error option" where
  "Atoi s = ParseInt s"

text \<open>
  \<open>strconv.ParseFloat(s, 64)\<close>. Floating-point values are not computed in this
  embedding, but whether the text is a number is: \<open>ParseFloat\<close> returns zero with a
  syntax error unless the whole text is one of the special words or a number.

  \<open>special\<close>: an optional sign and \<open>inf\<close> or \<open>infinity\<close>, or \<open>nan\<close> without a sign, in any
  case; the result is the number of bytes taken. Only the first three bytes are taken
  when \<open>inf\<close> is followed by a proper prefix of the rest of \<open>infinity\<close>.
\<close>

definition commonPrefixLenIgnoreCase :: "string \<Rightarrow> string \<Rightarrow> nat" where
  "commonPrefixLenIgnoreCase s prefix =
     length (takeWhile
       (\<lambda>(c, p). (if 65 \<le> (of_char c :: nat) \<and> (of_char c :: nat) \<le> 90
                    then char_of (of_char c + (32 :: nat)) else c) = p)
       (zip s prefix))"

definition special :: "string \<Rightarrow> nat option" where
  "special s =
     (if s = [] then None
      else if hd s = CHR ''+'' \<or> hd s = CHR ''-'' \<or> hd s = CHR ''i'' \<or> hd s = CHR ''I'' then
        (let signed = (hd s = CHR ''+'' \<or> hd s = CHR ''-'');
             nsign = (if signed then 1 else 0);
             n0 = commonPrefixLenIgnoreCase (if signed then tl s else s) ''infinity'';
             n = (if 3 < n0 \<and> n0 < 8 then 3 else n0)
         in if n = 3 \<or> n = 8 then Some (nsign + n) else None)
      else if hd s = CHR ''n'' \<or> hd s = CHR ''N'' then
        (if commonPrefixLenIgnoreCase s ''nan'' = 3 then Some 3 else None)
      else None)"

text \<open>
  \<open>underscoreOK\<close>: an underscore is allowed only between digits, or between a base
  prefix and a digit. \<open>saw\<close> is the kind of the last byte seen.
\<close>

definition isHexLetter :: "char \<Rightarrow> bool" where
  "isHexLetter c = ((97 \<le> (of_char c :: nat) \<and> (of_char c :: nat) \<le> 102)
                    \<or> (65 \<le> (of_char c :: nat) \<and> (of_char c :: nat) \<le> 70))"

fun underscoreOK_loop :: "bool \<Rightarrow> char \<Rightarrow> string \<Rightarrow> bool" where
  "underscoreOK_loop hex saw [] = (saw \<noteq> CHR ''_'')"
| "underscoreOK_loop hex saw (c # cs) =
     (if isDigit c \<or> (hex \<and> isHexLetter c) then underscoreOK_loop hex (CHR ''0'') cs
      else if c = CHR ''_'' then
        (if saw \<noteq> CHR ''0'' then False else underscoreOK_loop hex (CHR ''_'') cs)
      else if saw = CHR ''_'' then False
      else underscoreOK_loop hex (CHR ''!'') cs)"

definition underscoreOK :: "string \<Rightarrow> bool" where
  "underscoreOK s =
     (let s1 = (if s \<noteq> [] \<and> (hd s = CHR ''-'' \<or> hd s = CHR ''+'') then tl s else s);
          prefixed = (2 \<le> length s1 \<and> s1 ! 0 = CHR ''0''
                      \<and> s1 ! 1 \<in> set ''bBoOxX'');
          hex = (prefixed \<and> s1 ! 1 \<in> set ''xX'')
      in underscoreOK_loop hex (if prefixed then CHR ''0'' else CHR ''^'')
           (if prefixed then drop 2 s1 else s1))"

text \<open>
  \<open>readFloat\<close>, without the value it accumulates: an optional sign, an optional \<open>0x\<close>,
  the mantissa (digits, underscores and at most one point, with at least one digit),
  an exponent (\<open>e\<close>, or \<open>p\<close> after \<open>0x\<close>, where it is required) with an optional sign and
  at least one digit, and the check of the underscores. \<open>None\<close> is \<open>ok = false\<close>;
  otherwise the result is the text that was not read.
\<close>

fun readMantissa :: "bool \<Rightarrow> bool \<Rightarrow> bool \<Rightarrow> string \<Rightarrow> bool \<times> string" where
  "readMantissa hex sawdot sawdigits [] = (sawdigits, [])"
| "readMantissa hex sawdot sawdigits (c # cs) =
     (if c = CHR ''_'' then readMantissa hex sawdot sawdigits cs
      else if c = CHR ''.'' then
        (if sawdot then (sawdigits, c # cs) else readMantissa hex True sawdigits cs)
      else if isDigit c then readMantissa hex sawdot True cs
      else if hex \<and> isHexLetter c then readMantissa hex sawdot True cs
      else (sawdigits, c # cs))"

definition readFloat :: "string \<Rightarrow> string option" where
  "readFloat s =
     (if s = [] then None
      else
        (let s1 = (if hd s = CHR ''+'' \<or> hd s = CHR ''-'' then tl s else s);
             hex = (2 < length s1 \<and> s1 ! 0 = CHR ''0'' \<and> s1 ! 1 \<in> set ''xX'');
             (sawdigits, s3) = readMantissa hex False False (if hex then drop 2 s1 else s1);
             finish = (\<lambda>unread.
               (let consumed = take (length s - length unread) s
                in if CHR ''_'' \<in> set consumed \<and> \<not> underscoreOK consumed then None
                   else Some unread))
         in if \<not> sawdigits then None
            else if s3 \<noteq> [] \<and> hd s3 \<in> set (if hex then ''pP'' else ''eE'') then
              (let s4 = tl s3;
                   s5 = (if s4 \<noteq> [] \<and> (hd s4 = CHR ''+'' \<or> hd s4 = CHR ''-'') then tl s4 else s4)
               in if s4 = [] then None
                  else if s5 = [] \<or> \<not> isDigit (hd s5) then None
                  else finish (dropWhile (\<lambda>c. isDigit c \<or> c = CHR ''_'') s5))
            else if hex then None
            else finish s3))"

text \<open>
  A \<open>float64\<close> is either the zero that \<open>ParseFloat\<close> returns with a syntax error, or
  \<open>Parsed s\<close>: the value \<open>ParseFloat\<close> returns for the well-formed text \<open>s\<close> (the nearest
  floating-point number, an infinity when it is out of range, or one of the special
  values). Different texts may stand for the same number. The function below is the
  value \<open>ParseFloat\<close> returns; the program discards the error returned with it at
  every call.
\<close>

datatype float64 = Zero | Parsed string

definition ParseFloat :: "string \<Rightarrow> float64" where
  "ParseFloat s =
     (case special s of
        Some n \<Rightarrow> if n = length s then Parsed s else Zero
      | None \<Rightarrow>
          (case readFloat s of
             None \<Rightarrow> Zero
           | Some unread \<Rightarrow> if unread = [] then Parsed s else Zero))"

subsection \<open>strings and fmt\<close>

text \<open>\<open>strings.Trim(s, cutset)\<close> for a cutset of ASCII bytes.\<close>

definition Trim :: "string \<Rightarrow> string \<Rightarrow> string" where
  "Trim s cutset =
     rev (dropWhile (\<lambda>c. c \<in> set cutset) (rev (dropWhile (\<lambda>c. c \<in> set cutset) s)))"

text \<open>\<open>strings.Split(s, sep)\<close> for a one-byte separator: always at least one part.\<close>

fun Split :: "string \<Rightarrow> char \<Rightarrow> string list" where
  "Split [] sep = [[]]"
| "Split (c # cs) sep =
     (if c = sep then [] # Split cs sep
      else (case Split cs sep of
              p # ps \<Rightarrow> (c # p) # ps
            | [] \<Rightarrow> [[c]]))"

text \<open>
  \<open>strings.ToLower\<close>, as far as a comparison of its result with an ASCII word can see:
  the letters A-Z are lowered, and the only two non-ASCII runes whose lower case is
  ASCII are mapped (U+0130 to \<open>i\<close>, U+212A to \<open>k\<close>, in UTF-8); every other byte is kept,
  so a result with any other non-ASCII content stays different from every ASCII word.
\<close>

fun ToLower :: "string \<Rightarrow> string" where
  "ToLower [] = []"
| "ToLower (c # cs) =
     (if 65 \<le> (of_char c :: nat) \<and> (of_char c :: nat) \<le> 90
        then char_of (of_char c + (32 :: nat)) # ToLower cs
      else if c = CHR 0xC4 \<and> take 1 cs = [CHR 0xB0]
        then CHR ''i'' # ToLower (drop 1 cs)
      else if c = CHR 0xE2 \<and> take 2 cs = [CHR 0x84, CHR 0xAA]
        then CHR ''k'' # ToLower (drop 2 cs)
      else c # ToLower cs)"

text \<open>The verb \<open>%d\<close> of \<open>fmt\<close>.\<close>

fun fmtUint :: "nat \<Rightarrow> string" where
  "fmtUint n = (if n < 10 then [char_of (48 + n)]
                else fmtUint (n div 10) @ [char_of (48 + n mod 10)])"

declare fmtUint.simps [simp del]

definition fmtInt :: "int \<Rightarrow> string" where
  "fmtInt i = (if i < 0 then CHR ''-'' # fmtUint (nat (- i)) else fmtUint (nat i))"

section \<open>Data model\<close>

text \<open>
  \<open>Signal\<close> and \<open>Message\<close> (main.go 19-39). \<open>int\<close> is a 64-bit integer; the values stored
  come from \<open>Atoi\<close> and are never computed with, so they are kept as integers within the
  bounds \<open>Atoi\<close> guarantees. The fields \<open>Min\<close> and \<open>Max\<close> of a signal and the field \<open>Name\<close>
  of a message carry a suffix.
\<close>

record Signal =
  Name :: string
  StartBit :: int
  Length :: int
  ByteOrder :: "8 word"
  IsSigned :: bool
  Factor :: float64
  Offset :: float64
  Min_sig :: float64
  Max_sig :: float64
  Unit :: string

record Message =
  ID :: "32 word"
  Name_msg :: string
  DLC :: int
  Node :: string
  Signals :: "Signal list"

definition defaultNode :: string where
  "defaultNode = ''VECTOR__XXX''"

section \<open>Line parser and model builder\<close>

text \<open>
  The body of the loop of \<open>parseSignalLines\<close> up to the look-up of the message
  (main.go 218-260): the fields of one line. \<open>None\<close> is a line skipped with a warning
  (fewer than 11 fields, or a message ID that \<open>ParseUint(_, 10, 32)\<close> rejects);
  otherwise the message ID, the DLC, whether the DLC raised the warning flag (invalid
  or missing), and the signal. The errors of \<open>Atoi\<close> on fields 3 and 4 and of
  \<open>ParseFloat\<close> on fields 5 to 8 are discarded, the values returned with them are kept.
\<close>

definition decodeLine :: "string \<Rightarrow> (nat \<times> int \<times> bool \<times> Signal) option" where
  "decodeLine line =
     (let parts = Split (Trim line [CHR '' '', CHR 0x09, CHR '','']) (CHR '','') in
      if length parts < 11 then None
      else (case ParseUint (parts ! 1) 32 of
              (msgID, Some err) \<Rightarrow> None
            | (msgID, None) \<Rightarrow>
                (let startBit = fst (Atoi (parts ! 3));
                     len = fst (Atoi (parts ! 4));
                     offset = ParseFloat (parts ! 5);
                     factor = ParseFloat (parts ! 6);
                     max = ParseFloat (parts ! 7);
                     min = ParseFloat (parts ! 8);
                     isSigned = (ToLower (parts ! 9) = ''signed'');
                     byteOrder = (if ToLower (parts ! 10) = ''intel'' then 1 else 0);
                     (dlc, dlcWarn) =
                       (if length parts \<ge> 12 then
                          (case Atoi (parts ! 11) of
                             (v, None) \<Rightarrow> (v, False)
                           | (v, Some err) \<Rightarrow> (8, True))
                        else (8, True))
                 in Some (msgID, dlc, dlcWarn,
                      \<lparr>Name = parts ! 0, StartBit = startBit, Length = len,
                       ByteOrder = byteOrder, IsSigned = isSigned, Factor = factor,
                       Offset = offset, Min_sig = min, Max_sig = max,
                       Unit = parts ! 2\<rparr>))))"

text \<open>
  The rest of the loop body (main.go 262-293): a new message is created with this
  line's DLC, an existing one keeps the larger DLC, and the signal is appended.
\<close>

definition parseLine ::
  "(32 word \<rightharpoonup> Message) \<times> bool \<Rightarrow> string \<Rightarrow> (32 word \<rightharpoonup> Message) \<times> bool" where
  "parseLine st line =
     (case st of (messages, hasWarnings) \<Rightarrow>
        (case decodeLine line of
           None \<Rightarrow> (messages, True)
         | Some (msgID, dlc, dlcWarn, signal) \<Rightarrow>
             (let key = (word_of_nat msgID :: 32 word);
                  msg = (case messages key of
                           None \<Rightarrow> \<lparr>ID = key, Name_msg = ''CAN_MSG_'' @ fmtUint msgID,
                                     DLC = dlc, Node = defaultNode, Signals = []\<rparr>
                         | Some m \<Rightarrow> if dlc > DLC m then m\<lparr>DLC := dlc\<rparr> else m)
              in (messages(key \<mapsto> msg\<lparr>Signals := Signals msg @ [signal]\<rparr>),
                  hasWarnings \<or> dlcWarn))))"

text \<open>\<open>parseSignalLines\<close> (main.go 212-296); its error result is always \<open>nil\<close>.\<close>

definition parseSignalLines :: "string list \<Rightarrow> (32 word \<rightharpoonup> Message) \<times> bool" where
  "parseSignalLines lines = foldl parseLine (Map.empty, False) lines"

section \<open>Container reader\<close>

text \<open>
  \<open>bufio.Scanner\<close> with the default split function \<open>bufio.ScanLines\<close>, run over one
  decompressed entry: tokens end at LF, a trailing CR is dropped from each token, a
  last token without LF is returned when it is not empty. A token of
  \<open>bufio.MaxScanTokenSize\<close> bytes or more does not fit the scanner's buffer: \<open>Scan\<close>
  then returns false, and since the program never looks at \<open>scanner.Err()\<close> the rest of
  the entry is dropped silently.
\<close>

definition maxScanTokenSize :: nat where
  "maxScanTokenSize = 64 * 1024"

definition dropCR :: "byte list \<Rightarrow> byte list" where
  "dropCR data = (if data \<noteq> [] \<and> last data = CR then butlast data else data)"

function scanLines :: "byte list \<Rightarrow> string list" where
  "scanLines data =
     (if data = [] then []
      else (let token = takeWhile (\<lambda>b. b \<noteq> LF) data
            in if maxScanTokenSize \<le> length token then []
               else dropCR token # scanLines (drop (Suc (length token)) data)))"
  by pat_completeness auto
termination
  by (relation "measure length") auto

declare scanLines.simps [simp del]

text \<open>
  \<open>strings.TrimSpace(line) == ""\<close>: the result of \<open>TrimSpace\<close> is empty exactly when the
  line is a sequence of white-space runes. Those are the six ASCII ones, and in UTF-8
  U+0085, U+00A0, U+1680, U+2000 to U+200A, U+2028, U+2029, U+202F, U+205F and U+3000.
\<close>

definition asciiSpace :: "char \<Rightarrow> bool" where
  "asciiSpace c = (c = CHR 0x09 \<or> c = CHR 0x0A \<or> c = CHR 0x0B \<or> c = CHR 0x0C
                   \<or> c = CHR 0x0D \<or> c = CHR 0x20)"

fun isBlank :: "string \<Rightarrow> bool" where
  "isBlank [] = True"
| "isBlank (c # cs) =
     (if asciiSpace c then isBlank cs
      else if c = CHR 0xC2 \<and> (take 1 cs = [CHR 0x85] \<or> take 1 cs = [CHR 0xA0])
        then isBlank (drop 1 cs)
      else if c = CHR 0xE1 \<and> take 2 cs = [CHR 0x9A, CHR 0x80]
        then isBlank (drop 2 cs)
      else if c = CHR 0xE2 \<and> take 1 cs = [CHR 0x80] \<and> 2 \<le> length cs
              \<and> ((128 \<le> (of_char (cs ! 1) :: nat) \<and> (of_char (cs ! 1) :: nat) \<le> 138)
                  \<or> cs ! 1 = CHR 0xA8 \<or> cs ! 1 = CHR 0xA9 \<or> cs ! 1 = CHR 0xAF)
        then isBlank (drop 2 cs)
      else if c = CHR 0xE2 \<and> take 2 cs = [CHR 0x81, CHR 0x9F]
        then isBlank (drop 2 cs)
      else if c = CHR 0xE3 \<and> take 2 cs = [CHR 0x80, CHR 0x80]
        then isBlank (drop 2 cs)
      else False)"

text \<open>The lines one decompressed entry adds to \<open>allLines\<close> (main.go 167-173).\<close>

definition entryLines :: "byte list \<Rightarrow> string list" where
  "entryLines decompressedData = filter (\<lambda>line. \<not> isBlank line) (scanLines decompressedData)"

text \<open>
  The fatal errors of \<open>processFile\<close>, one per \<open>fmt.Errorf\<close> of the container reader, each
  with its cause; an entry error carries the entry number \<open>i + 1\<close>.
\<close>

datatype fatal =
    ErrHeader io_error
  | ErrHeaderDelimiter io_error
  | ErrSerial io_error
  | ErrSerialDelimiter io_error
  | ErrZlibSerial zstr_error
  | ErrTotalEntries io_error
  | ErrEntry nat zstr_error
  | ErrRemaining io_error

text \<open>
  Step 1 of \<open>processFile\<close>, "Skip headers" (main.go 126-143): two header fields, each
  followed by \<open>Discard(2)\<close>, then one length-prefixed block read by \<open>readZlibStr\<close>, whose
  bytes are dropped as they are: \<open>decompressZlib\<close> is not called on them.
\<close>

definition skipHeaders :: "reader \<Rightarrow> fatal + reader" where
  "skipHeaders r0 =
     (case readUpToCRLF r0 of
        Inl e \<Rightarrow> Inl (ErrHeader e)
      | Inr (header, r1) \<Rightarrow>
     (case Discard 2 r1 of
        Inl e \<Rightarrow> Inl (ErrHeaderDelimiter e)
      | Inr r2 \<Rightarrow>
     (case readUpToCRLF r2 of
        Inl e \<Rightarrow> Inl (ErrSerial e)
      | Inr (serial, r3) \<Rightarrow>
     (case Discard 2 r3 of
        Inl e \<Rightarrow> Inl (ErrSerialDelimiter e)
      | Inr r4 \<Rightarrow>
     (case readZlibStr r4 of
        Inl e \<Rightarrow> Inl (ErrZlibSerial e)
      | Inr (blob, r5) \<Rightarrow> Inr r5)))))"

text \<open>
  Step 3, the loop over the entries (main.go 154-174). \<open>decompressZlib\<close> (main.go
  387-395) consists of calls into \<open>compress/zlib\<close> and is a parameter: \<open>None\<close> is its
  error, \<open>Some\<close> the decompressed bytes. The counter is a \<open>uint16\<close> below
  \<open>totalEntries\<close>, so neither \<open>i++\<close> nor \<open>i+1\<close> wraps.
\<close>

function decompressEntries ::
  "(byte list \<Rightarrow> byte list option) \<Rightarrow> nat \<Rightarrow> nat \<Rightarrow> reader \<Rightarrow> bool \<Rightarrow> string list
     \<Rightarrow> bool \<times> (fatal + reader \<times> string list)" where
  "decompressEntries decompressZlib totalEntries i r hasWarnings allLines =
     (if i < totalEntries then
        (case readZlibStr r of
           Inl err \<Rightarrow> (hasWarnings, Inl (ErrEntry (i + 1) err))
         | Inr (compressedData, r') \<Rightarrow>
             (case decompressZlib compressedData of
                None \<Rightarrow>
                  decompressEntries decompressZlib totalEntries (i + 1) r' True allLines
              | Some decompressedData \<Rightarrow>
                  decompressEntries decompressZlib totalEntries (i + 1) r' hasWarnings
                    (allLines @ entryLines decompressedData)))
      else (hasWarnings, Inr (r, allLines)))"
  by pat_completeness auto
termination
  by (relation "measure (\<lambda>(d, totalEntries, i, r, w, ls). totalEntries - i)") auto

declare decompressEntries.simps [simp del]

text \<open>
  \<open>processFile\<close> from the opened reader to the parsed messages (main.go 122-194): steps
  1 to 5. It returns the warning flag and either the fatal error or, for use in the
  statements below, the collected lines and the messages that step 6 hands to
  \<open>writeDBC\<close>. Opening the input, creating the output and flushing it belong to the
  file system and are not modelled.
\<close>

definition processFile ::
  "(byte list \<Rightarrow> byte list option) \<Rightarrow> reader
     \<Rightarrow> bool \<times> (fatal + string list \<times> (32 word \<rightharpoonup> Message))" where
  "processFile decompressZlib r0 =
     (case skipHeaders r0 of
        Inl e \<Rightarrow> (False, Inl e)
      | Inr r5 \<Rightarrow>
     (case ReadUint16 r5 of
        Inl e \<Rightarrow> (False, Inl (ErrTotalEntries e))
      | Inr (totalEntries, r6) \<Rightarrow>
     (case decompressEntries decompressZlib totalEntries 0 r6 False [] of
        (hasWarnings, Inl e) \<Rightarrow> (hasWarnings, Inl e)
      | (hasWarnings, Inr (r7, allLines)) \<Rightarrow>
          (case ReadByte r7 of
             Inr (b, r8) \<Rightarrow>
               (case parseSignalLines allLines of
                  (messages, parseWarnings) \<Rightarrow> (True, Inr (allLines, messages)))
           | Inl err \<Rightarrow>
               if err \<noteq> EOF then (hasWarnings, Inl (ErrRemaining err))
               else (case parseSignalLines allLines of
                       (messages, parseWarnings) \<Rightarrow>
                         (hasWarnings \<or> parseWarnings, Inr (allLines, messages)))))))"

section \<open>A decoder for example containers\<close>

text \<open>
  To run the model on concrete containers, \<open>decompressZlib\<close> is instantiated with a
  decoder for the zlib streams (RFC 1950) whose deflate blocks are all stored blocks
  (RFC 1951, block type 00): the two header bytes are checked, each block gives its
  length, the complement of the length and the bytes, and the Adler-32 checksum of the
  output follows the last block. Every other input is rejected.
\<close>

definition adler32 :: "byte list \<Rightarrow> nat" where
  "adler32 data =
     (case foldl (\<lambda>(a, b) c. ((a + of_char c) mod 65521, (b + (a + of_char c) mod 65521) mod 65521))
             (1, 0) data of
        (a, b) \<Rightarrow> b * 65536 + a)"

function storedBlocks :: "byte list \<Rightarrow> (byte list \<times> byte list) option" where
  "storedBlocks z =
     (case z of
        h # l0 # l1 # n0 # n1 # body \<Rightarrow>
          (let len = of_char l0 + 256 * of_char l1;
               nlen = of_char n0 + 256 * (of_char n1 :: nat)
           in if (of_char h div 2) mod 4 \<noteq> (0 :: nat) then None
              else if len + nlen \<noteq> 65535 then None
              else if length body < len then None
              else if of_char h mod 2 = (1 :: nat) then Some (take len body, drop len body)
              else (case storedBlocks (drop len body) of
                      None \<Rightarrow> None
                    | Some (out, after) \<Rightarrow> Some (take len body @ out, after)))
      | _ \<Rightarrow> None)"
  by pat_completeness auto
termination
  by (relation "measure length") auto

declare storedBlocks.simps [simp del]

definition inflateStored :: "byte list \<Rightarrow> byte list option" where
  "inflateStored z =
     (case z of
        cmf # flg # deflate \<Rightarrow>
          (if of_char cmf mod 16 \<noteq> (8 :: nat) \<or> of_char cmf div 16 > (7 :: nat)
              \<or> (of_char cmf * 256 + of_char flg) mod 31 \<noteq> (0 :: nat) then None
           else if (of_char flg div 32) mod 2 = (1 :: nat) then None
           else (case storedBlocks deflate of
                   None \<Rightarrow> None
                 | Some (out, trailer) \<Rightarrow>
                     (case trailer of
                        c0 # c1 # c2 # c3 # _ \<Rightarrow>
                          if ((of_char c0 * 256 + of_char c1) * 256 + of_char c2) * 256 + of_char c3
                               = adler32 out
                          then Some out else None
                      | _ \<Rightarrow> None)))
      | _ \<Rightarrow> None)"

section \<open>Serializer\<close>

text \<open>
  \<open>writeDBC\<close> (main.go 299-349). The verb \<open>%g\<close> is applied to \<open>float64\<close> values, which
  this embedding does not compute with: its rendering is the parameter \<open>fmtG\<close>. The
  \<open>int32\<close> constants of the two \<open>%c\<close> verbs are written as the characters they print.
\<close>

definition TAB :: char where "TAB = CHR 0x09"
definition DQUOTE :: char where "DQUOTE = CHR 0x22"

definition nsKeywords :: "string list" where
  "nsKeywords =
     [''CM_'', ''BA_DEF_'', ''BA_'', ''VAL_'', ''CAT_DEF_'', ''CAT_'', ''FILTER'',
      ''BA_DEF_DEF_'', ''EV_DATA_'', ''ENVVAR_DATA_'', ''SGTYPE_'', ''SGTYPE_VAL_'',
      ''BA_DEF_SGTYPE_'', ''BA_SGTYPE_'', ''SIG_TYPE_REF_'', ''VAL_TABLE_'', ''SIG_GROUP_'',
      ''SIG_VALTYPE_'', ''SIGTYPE_VALTYPE_'', ''BO_TX_BU_'', ''BA_DEF_REL_'', ''BA_REL_'',
      ''BA_DEF_DEF_REL_'', ''BU_SG_REL_'', ''BU_EV_REL_'', ''BU_BO_REL_'', ''SG_MUL_VAL_'']"

text \<open>The header and the node line (main.go 301-307).\<close>

definition dbcHeader :: string where
  "dbcHeader =
     ''VERSION '' @ [DQUOTE, DQUOTE, LF, LF]
     @ ''NS_ :'' @ [LF] @ concat (map (\<lambda>k. TAB # k @ [LF]) nsKeywords)
     @ [LF] @ ''BS_:'' @ [LF, LF]
     @ ''BU_: '' @ defaultNode @ [LF, LF]"

text \<open>One \<open>SG_\<close> line (main.go 321-343).\<close>

definition writeSignal :: "(float64 \<Rightarrow> string) \<Rightarrow> Signal \<Rightarrow> string" where
  "writeSignal fmtG sig =
     (let byteOrderChar = (if ByteOrder sig = 1 then CHR ''1'' else CHR ''0'');
          signChar = (if IsSigned sig then CHR ''-'' else CHR ''+'')
      in '' SG_ '' @ Name sig @ '' : '' @ fmtInt (StartBit sig) @ ''|'' @ fmtInt (Length sig)
         @ ''@'' @ [byteOrderChar, signChar]
         @ '' ('' @ fmtG (Factor sig) @ '','' @ fmtG (Offset sig) @ '')''
         @ '' ['' @ fmtG (Min_sig sig) @ ''|'' @ fmtG (Max_sig sig) @ '']''
         @ '' '' @ [DQUOTE] @ Unit sig @ [DQUOTE] @ '' '' @ defaultNode @ [LF])"

text \<open>One frame block: the \<open>BO_\<close> line, the signals in their order, an empty line.\<close>

definition writeMessage :: "(float64 \<Rightarrow> string) \<Rightarrow> Message \<Rightarrow> string" where
  "writeMessage fmtG msg =
     ''BO_ '' @ fmtUint (unat (ID msg)) @ '' '' @ Name_msg msg @ '': '' @ fmtInt (DLC msg)
     @ '' '' @ Node msg @ [LF]
     @ concat (map (writeSignal fmtG) (Signals msg))
     @ [LF]"

text \<open>
  The loop over the sorted IDs (main.go 317-346). \<open>messages[id]\<close> of an ID that is not
  in the map is a nil pointer, and reading its fields panics: \<open>None\<close>.
\<close>

fun writeMessages ::
  "(float64 \<Rightarrow> string) \<Rightarrow> (32 word \<rightharpoonup> Message) \<Rightarrow> 32 word list \<Rightarrow> string option" where
  "writeMessages fmtG messages [] = Some []"
| "writeMessages fmtG messages (k # ids) =
     (case messages k of
        None \<Rightarrow> None
      | Some msg \<Rightarrow>
          (case writeMessages fmtG messages ids of
             None \<Rightarrow> None
           | Some out \<Rightarrow> Some (writeMessage fmtG msg @ out)))"

text \<open>
  \<open>writeDBC\<close>: \<open>keys\<close> is the order in which \<open>range messages\<close> visits the keys of the map,
  which Go leaves unspecified; \<open>sort.Slice\<close> with \<open>ids[i] < ids[j]\<close> on \<open>uint32\<close> puts
  them in ascending numeric order (the keys of a map are pairwise different, so every
  sorting algorithm gives the same list). The function's own error result is always
  \<open>nil\<close>.
\<close>

definition writeDBC ::
  "(float64 \<Rightarrow> string) \<Rightarrow> (32 word \<rightharpoonup> Message) \<Rightarrow> 32 word list \<Rightarrow> string option" where
  "writeDBC fmtG messages keys =
     (let ids = sort keys
      in case writeMessages fmtG messages ids of
           None \<Rightarrow> None
         | Some body \<Rightarrow> Some (dbcHeader @ body))"

text \<open>
  A rendering of \<open>%g\<close> for example inputs: a number written in the shortest form that
  \<open>%g\<close> prints (such as 0, 1 or 0.5) is printed as it was written.
\<close>

definition plainG :: "float64 \<Rightarrow> string" where
  "plainG x = (case x of Zero \<Rightarrow> ''0'' | Parsed s \<Rightarrow> s)"

section \<open>Notions used to state the properties\<close>

text \<open>The number a string of decimal digits denotes.\<close>

definition decimalValue :: "string \<Rightarrow> nat" where
  "decimalValue s = foldl (\<lambda>n c. n * 10 + digitVal c) 0 s"


text \<open>
  The lines that are not skipped, as (message ID, DLC, DLC warning, signal), in input
  order; those of one message ID; their DLC values and their signals.
\<close>

definition accepted :: "string list \<Rightarrow> (nat \<times> int \<times> bool \<times> Signal) list" where
  "accepted lines = List.map_filter decodeLine lines"

definition forID :: "nat \<Rightarrow> string list \<Rightarrow> (nat \<times> int \<times> bool \<times> Signal) list" where
  "forID i lines = filter (\<lambda>e. fst e = i) (accepted lines)"

definition dlcsFor :: "nat \<Rightarrow> string list \<Rightarrow> int list" where
  "dlcsFor i lines = map (\<lambda>e. fst (snd e)) (forID i lines)"

definition signalsFor :: "nat \<Rightarrow> string list \<Rightarrow> Signal list" where
  "signalsFor i lines = map (\<lambda>e. snd (snd (snd e))) (forID i lines)"

text \<open>
  The message expected under a message ID: none when no accepted line carries the ID,
  otherwise the largest DLC of those lines and their signals in input order.
\<close>

definition expectedMessage :: "nat \<Rightarrow> string list \<Rightarrow> Message option" where
  "expectedMessage i lines =
     (if forID i lines = [] then None
      else Some \<lparr>ID = word_of_nat i, Name_msg = ''CAN_MSG_'' @ fmtUint i,
                 DLC = Max (set (dlcsFor i lines)), Node = defaultNode,
                 Signals = signalsFor i lines\<rparr>)"

text \<open>
  A container whose blocks are all framed in full: the two header fields with their
  CR LF, the block before the entry count, the count and the entries. The lines an
  entry contributes under a given decompressor. The error of a read that finds fewer
  bytes than asked for.
\<close>

definition container :: "byte list \<Rightarrow> byte list \<Rightarrow> byte list \<Rightarrow> byte list list \<Rightarrow> byte list" where
  "container header serial blob entries =
     header @ CR # LF # serial @ CR # LF # frame blob
       @ u16be (length entries) @ concat (map frame entries)"

definition linesOf :: "(byte list \<Rightarrow> byte list option) \<Rightarrow> byte list \<Rightarrow> string list" where
  "linesOf decompressZlib entry =
     (case decompressZlib entry of None \<Rightarrow> [] | Some data \<Rightarrow> entryLines data)"

definition shortRead :: "bool \<Rightarrow> byte list \<Rightarrow> io_error" where
  "shortRead f t = (if f then ErrIO else if t = [] then EOF else ErrUnexpectedEOF)"

section \<open>Example entries\<close>

text \<open>
  Three entries: two zlib streams with one stored block each, as a zlib encoder at
  compression level 0 writes them, and two bytes that are no zlib stream.
\<close>

definition entryA :: "byte list" where
  "entryA = [CHR 0x78, CHR 0x01, CHR 0x01, CHR 0x21, CHR 0x00, CHR 0xDE, CHR 0xFF]
            @ ''a,5,u,0,8,0,1,0,0,signed,intel,8'' @ [LF]
            @ [CHR 0x8D, CHR 0x5D, CHR 0x08, CHR 0xF1]"

definition entryB :: "byte list" where
  "entryB = [CHR 0x78, CHR 0x01, CHR 0x01, CHR 0x2A, CHR 0x00, CHR 0xD5, CHR 0xFF]
            @ ''b,5,u,8,8,0,1,0,0,unsigned,motorola,3'' @ [CR, LF, CHR 0x20, CR, LF]
            @ [CHR 0xF5, CHR 0x1B, CHR 0x0B, CHR 0x6D]"

definition entryBad :: "byte list" where
  "entryBad = [CHR 0xDE, CHR 0xAD]"

section \<open>Reading a header field\<close>

lemma readUpToCRLF_loop_field:
  "\<not> hasCRLF h \<Longrightarrow>
   readUpToCRLF_loop acc \<lparr>rest = h @ CR # LF # t, fault = f\<rparr>
     = Inr (acc @ h, \<lparr>rest = CR # LF # t, fault = f\<rparr>)"
proof (induction h arbitrary: acc)
  case Nil
  show ?case by (simp add: Peek2_def)
next
  case (Cons c cs)
  have nxt: "\<not> hasCRLF cs" using Cons.prems by (cases cs) auto
  have nopair: "\<not> (c = CR \<and> hd (cs @ [CR]) = LF)"
    using Cons.prems by (cases cs) (auto simp: CR_def LF_def)
  obtain d ds where tl: "cs @ CR # LF # t = d # ds" and d: "d = hd (cs @ [CR])"
    by (cases cs) auto
  have "readUpToCRLF_loop acc \<lparr>rest = (c # cs) @ CR # LF # t, fault = f\<rparr>
      = readUpToCRLF_loop (acc @ [c]) \<lparr>rest = cs @ CR # LF # t, fault = f\<rparr>"
    using nopair d tl
    by (subst readUpToCRLF_loop.simps) (auto simp: Peek2_def ReadByte_def)
  then show ?case using Cons.IH [OF nxt, of "acc @ [c]"] by simp
qed

lemma skipHeaders_two_fields:
  assumes "\<not> hasCRLF h1" and "\<not> hasCRLF h2"
  shows "skipHeaders \<lparr>rest = h1 @ CR # LF # h2 @ CR # LF # t, fault = f\<rparr>
           = (case readZlibStr \<lparr>rest = t, fault = f\<rparr> of
                Inl e \<Rightarrow> Inl (ErrZlibSerial e)
              | Inr (blob, r5) \<Rightarrow> Inr r5)"
proof -
  have a: "readUpToCRLF \<lparr>rest = h1 @ CR # LF # h2 @ CR # LF # t, fault = f\<rparr>
      = Inr (h1, \<lparr>rest = CR # LF # h2 @ CR # LF # t, fault = f\<rparr>)"
    using readUpToCRLF_loop_field [OF assms(1), of "[]" "h2 @ CR # LF # t" f]
    by (simp add: readUpToCRLF_def)
  have c: "readUpToCRLF \<lparr>rest = h2 @ CR # LF # t, fault = f\<rparr>
      = Inr (h2, \<lparr>rest = CR # LF # t, fault = f\<rparr>)"
    using readUpToCRLF_loop_field [OF assms(2), of "[]" t f]
    by (simp add: readUpToCRLF_def)
  show ?thesis
    by (simp add: skipHeaders_def a c Discard_def)
qed

lemma skipHeaders_ends_after_first_field:
  assumes "\<not> hasCRLF h1"
  shows "skipHeaders \<lparr>rest = h1 @ [CR, LF], fault = False\<rparr> = Inl (ErrSerialDelimiter EOF)"
proof -
  have a: "readUpToCRLF \<lparr>rest = h1 @ [CR, LF], fault = False\<rparr>
      = Inr (h1, \<lparr>rest = [CR, LF], fault = False\<rparr>)"
    using readUpToCRLF_loop_field [OF assms, of "[]" "[]" False]
    by (simp add: readUpToCRLF_def)
  have c: "readUpToCRLF \<lparr>rest = [], fault = False\<rparr> = Inr ([], \<lparr>rest = [], fault = False\<rparr>)"
    by (simp add: readUpToCRLF_def Peek2_def endErr_def ReadAll_def)
  show ?thesis
    by (simp add: skipHeaders_def a c Discard_def endErr_def)
qed

text \<open>
  C1 (as amended). For header fields \<open>h1\<close> and \<open>h2\<close> without CR LF, each followed by
  CR LF: \<open>readUpToCRLF\<close> returns exactly the field and leaves the reader \<^emph>\<open>at\<close> its
  CR LF, and the container reader consumes the field's bytes plus those 2 bytes and
  nothing more. After \<open>h1\<close>, CR LF, \<open>h2\<close>, CR LF the next item, the length-prefixed
  block, is read from the very next byte; a file that ends right behind the first
  field's CR LF fails only at the delimiter of the second field; and the conversion
  of a file is the conversion of the same file with both fields empty, that is with
  4 bytes in front of the block.
\<close>

theorem C1_header_field_consumes_field_plus_two:
  assumes "\<not> hasCRLF h1" and "\<not> hasCRLF h2"
  shows "readUpToCRLF \<lparr>rest = h1 @ CR # LF # t, fault = f\<rparr>
           = Inr (h1, \<lparr>rest = CR # LF # t, fault = f\<rparr>)
       \<and> skipHeaders \<lparr>rest = h1 @ CR # LF # h2 @ CR # LF # t, fault = f\<rparr>
           = (case readZlibStr \<lparr>rest = t, fault = f\<rparr> of
                Inl e \<Rightarrow> Inl (ErrZlibSerial e)
              | Inr (blob, r5) \<Rightarrow> Inr r5)
       \<and> skipHeaders \<lparr>rest = h1 @ [CR, LF], fault = False\<rparr> = Inl (ErrSerialDelimiter EOF)
       \<and> processFile zd \<lparr>rest = h1 @ CR # LF # h2 @ CR # LF # t, fault = f\<rparr>
           = processFile zd \<lparr>rest = CR # LF # CR # LF # t, fault = f\<rparr>"
proof -
  have e: "\<not> hasCRLF []" by simp
  have r: "readUpToCRLF \<lparr>rest = h1 @ CR # LF # t, fault = f\<rparr>
      = Inr (h1, \<lparr>rest = CR # LF # t, fault = f\<rparr>)"
    using readUpToCRLF_loop_field [OF assms(1), of "[]" t f] by (simp add: readUpToCRLF_def)
  have s: "skipHeaders \<lparr>rest = h1 @ CR # LF # h2 @ CR # LF # t, fault = f\<rparr>
      = skipHeaders \<lparr>rest = CR # LF # CR # LF # t, fault = f\<rparr>"
    using skipHeaders_two_fields [OF assms, of t f] skipHeaders_two_fields [OF e e, of t f]
    by simp
  have p: "processFile zd \<lparr>rest = h1 @ CR # LF # h2 @ CR # LF # t, fault = f\<rparr>
      = processFile zd \<lparr>rest = CR # LF # CR # LF # t, fault = f\<rparr>"
    by (simp add: processFile_def s)
  show ?thesis
    using r skipHeaders_two_fields [OF assms, of t f]
      skipHeaders_ends_after_first_field [OF assms(1)] p
    by simp
qed

theorem C1_witness:
  "\<not> hasCRLF ''AB'' \<and> \<not> hasCRLF ''CD''
   \<and> readUpToCRLF \<lparr>rest = ''AB'' @ CR # LF # ''CD'' @ CR # LF # [CHR 0x00, CHR 0x00] @ ''WXYZ'',
                     fault = False\<rparr>
       = Inr (''AB'', \<lparr>rest = CR # LF # ''CD'' @ CR # LF # [CHR 0x00, CHR 0x00] @ ''WXYZ'',
                        fault = False\<rparr>)
   \<and> skipHeaders \<lparr>rest = ''AB'' @ CR # LF # ''CD'' @ CR # LF # [CHR 0x00, CHR 0x00] @ ''WXYZ'',
                    fault = False\<rparr>
       = Inr \<lparr>rest = ''WXYZ'', fault = False\<rparr>
   \<and> skipHeaders \<lparr>rest = ''AB'' @ [CR, LF], fault = False\<rparr> = Inl (ErrSerialDelimiter EOF)"
proof -
  have h: "\<not> hasCRLF ''AB''" "\<not> hasCRLF ''CD''" by (simp_all add: CR_def LF_def)
  have z: "readZlibStr \<lparr>rest = [CHR 0x00, CHR 0x00] @ ''WXYZ'', fault = False\<rparr>
      = Inr ([], \<lparr>rest = ''WXYZ'', fault = False\<rparr>)"
    by (simp add: readZlibStr_def ReadUint16_def ReadFull_def)
  show ?thesis
    using h
      C1_header_field_consumes_field_plus_two
        [OF h, where t = "''CD'' @ CR # LF # [CHR 0x00, CHR 0x00] @ ''WXYZ''"
           and f = False and zd = inflateStored]
      C1_header_field_consumes_field_plus_two
        [OF h, where t = "[CHR 0x00, CHR 0x00] @ ''WXYZ''" and f = False and zd = inflateStored]
    unfolding z by simp
qed

theorem C1_counterexample:
  "readUpToCRLF \<lparr>rest = ''AB'' @ CR # LF # ''WXYZ'', fault = False\<rparr>
       = Inr (''AB'', \<lparr>rest = CR # LF # ''WXYZ'', fault = False\<rparr>)
   \<and> Discard 2 \<lparr>rest = CR # LF # ''WXYZ'', fault = False\<rparr> = Inr \<lparr>rest = ''WXYZ'', fault = False\<rparr>
   \<and> length (''AB'' @ CR # LF # ''WXYZ'') - length ''WXYZ'' \<noteq> length ''AB'' + 4
   \<and> skipHeaders \<lparr>rest = ''AB'' @ [CR, LF] @ ''CD'' @ [CR, LF] @ [CHR 0x00, CHR 0x00] @ ''WXYZ'',
                     fault = False\<rparr>
       = Inr \<lparr>rest = ''WXYZ'', fault = False\<rparr>"
  by (simp add: skipHeaders_def readZlibStr_def ReadUint16_def ReadFull_def
        readUpToCRLF_def Discard_def Peek2_def ReadByte_def CR_def LF_def)

section \<open>Properties of the number parsers\<close>

lemma foldl_decimal_ge: "n \<le> foldl (\<lambda>n c. n * 10 + digitVal c) n s"
proof (induction s arbitrary: n)
  case Nil
  show ?case by simp
next
  case (Cons c cs)
  have "n \<le> n * 10 + digitVal c" by simp
  also have "\<dots> \<le> foldl (\<lambda>n c. n * 10 + digitVal c) (n * 10 + digitVal c) cs"
    by (rule Cons.IH)
  finally show ?case by simp
qed

lemma cutoff_overflows: "cutoff \<le> n \<Longrightarrow> (2::nat) ^ 64 \<le> n * 10"
  by (simp add: cutoff_def)

lemma below_cutoff: "n < cutoff \<Longrightarrow> d \<le> 9 \<Longrightarrow> n * 10 + d < 2 * (2::nat) ^ 64"
  by (simp add: cutoff_def)

lemma digitVal_le: "isDigit c \<Longrightarrow> digitVal c \<le> 9"
  by (auto simp: isDigit_def digitVal_def)

lemma ParseUint_loop_spec:
  assumes "maxVal < 2 ^ 64" and "n \<le> maxVal"
  shows "ParseUint_loop maxVal n s = (v, None) \<longleftrightarrow>
           (\<forall>c\<in>set s. isDigit c)
           \<and> foldl (\<lambda>n c. n * 10 + digitVal c) n s \<le> maxVal
           \<and> v = foldl (\<lambda>n c. n * 10 + digitVal c) n s"
  using assms(2)
proof (induction s arbitrary: n)
  case Nil
  then show ?case by auto
next
  case (Cons c cs)
  let ?f = "\<lambda>n c. n * 10 + digitVal c"
  let ?m = "n * 10 + digitVal c"
  have ge: "?m \<le> foldl ?f ?m cs" by (rule foldl_decimal_ge)
  show ?case
  proof (cases "isDigit c")
    case False
    then show ?thesis by simp
  next
    case dig: True
    show ?thesis
    proof (cases "cutoff \<le> n")
      case True
      then have "2 ^ 64 \<le> ?m" using cutoff_overflows [of n] by simp
      then have "\<not> foldl ?f ?m cs \<le> maxVal" using ge assms(1) by simp
      then show ?thesis using dig True by simp
    next
      case small: False
      then have lt2: "?m < 2 * 2 ^ 64"
        using below_cutoff [of n "digitVal c"] digitVal_le [OF dig] by simp
      show ?thesis
      proof (cases "?m < 2 ^ 64")
        case True
        then have md: "?m mod 2 ^ 64 = ?m" by simp
        show ?thesis
        proof (cases "?m \<le> maxVal")
          case True
          then show ?thesis
            using dig small md Cons.IH [of ?m] by (simp add: Let_def)
        next
          case False
          then have "\<not> foldl ?f ?m cs \<le> maxVal" using ge by simp
          then show ?thesis using dig small md False by (simp add: Let_def)
        qed
      next
        case False
        then have md: "?m mod 2 ^ 64 = ?m - 2 ^ 64"
          using lt2 by (simp add: mod_if)
        have wrapped: "?m - 2 ^ 64 < n * 10"
          using False digitVal_le [OF dig] by simp
        have "\<not> foldl ?f ?m cs \<le> maxVal" using ge False assms(1) by simp
        then show ?thesis using dig small md wrapped by (simp add: Let_def)
      qed
    qed
  qed
qed

lemma ParseUint_32_spec:
  "ParseUint s 32 = (v, None) \<longleftrightarrow>
     s \<noteq> [] \<and> (\<forall>c\<in>set s. isDigit c) \<and> decimalValue s \<le> 4294967295 \<and> v = decimalValue s"
  using ParseUint_loop_spec [of "2 ^ 32 - 1" 0 s v]
  by (simp add: ParseUint_def decimalValue_def)

lemma ParseUint_32_error:
  "(\<exists>v err. ParseUint s 32 = (v, Some err)) \<longleftrightarrow>
     s = [] \<or> (\<exists>c\<in>set s. \<not> isDigit c) \<or> decimalValue s > 4294967295"
proof -
  obtain a b where ab: "ParseUint s 32 = (a, b)" by (cases "ParseUint s 32")
  have "(\<exists>v err. ParseUint s 32 = (v, Some err)) \<longleftrightarrow> \<not> (\<exists>v. ParseUint s 32 = (v, None))"
    using ab by (cases b) auto
  then show ?thesis using ParseUint_32_spec [of s] by auto
qed

lemma decodeLine_id_bound:
  "decodeLine l = Some (i, d, w, s) \<Longrightarrow> i < 2 ^ 32"
proof -
  assume a: "decodeLine l = Some (i, d, w, s)"
  then have "ParseUint (Split (Trim l [CHR '' '', CHR 0x09, CHR '','']) (CHR '','') ! 1) 32 = (i, None)"
    by (auto simp: decodeLine_def Let_def split: if_splits prod.splits option.splits)
  then show ?thesis using ParseUint_32_spec by simp
qed

section \<open>What the model builder holds after a sequence of lines\<close>

lemma accepted_snoc:
  "accepted (ls @ [l]) = accepted ls @ (case decodeLine l of None \<Rightarrow> [] | Some e \<Rightarrow> [e])"
  by (simp add: accepted_def List.map_filter_def split: option.splits)

lemma forID_snoc:
  "forID i (ls @ [l]) =
     forID i ls @ (case decodeLine l of None \<Rightarrow> [] | Some e \<Rightarrow> if fst e = i then [e] else [])"
  by (simp add: forID_def accepted_snoc split: option.splits)

lemma expectedMessage_skip:
  "decodeLine l = None \<Longrightarrow> expectedMessage i (ls @ [l]) = expectedMessage i ls"
  by (simp add: expectedMessage_def dlcsFor_def signalsFor_def forID_snoc)

lemma expectedMessage_other:
  "decodeLine l = Some (j, d, dw, s) \<Longrightarrow> i \<noteq> j \<Longrightarrow>
   expectedMessage i (ls @ [l]) = expectedMessage i ls"
  by (simp add: expectedMessage_def dlcsFor_def signalsFor_def forID_snoc)

lemma expectedMessage_same:
  assumes "decodeLine l = Some (i, d, dw, s)"
  shows "expectedMessage i (ls @ [l]) =
     Some (let msg = (case expectedMessage i ls of
                        None \<Rightarrow> \<lparr>ID = word_of_nat i, Name_msg = ''CAN_MSG_'' @ fmtUint i,
                                  DLC = d, Node = defaultNode, Signals = []\<rparr>
                      | Some m \<Rightarrow> if d > DLC m then m\<lparr>DLC := d\<rparr> else m)
           in msg\<lparr>Signals := Signals msg @ [s]\<rparr>)"
proof (cases "forID i ls = []")
  case True
  then show ?thesis using assms
    by (simp add: expectedMessage_def dlcsFor_def signalsFor_def forID_snoc)
next
  case False
  then have ne: "set (dlcsFor i ls) \<noteq> {}" by (simp add: dlcsFor_def)
  have mx: "Max (set (dlcsFor i (ls @ [l]))) = max d (Max (set (dlcsFor i ls)))"
    using assms ne by (simp add: dlcsFor_def forID_snoc)
  have sg: "signalsFor i (ls @ [l]) = signalsFor i ls @ [s]"
    using assms by (simp add: signalsFor_def forID_snoc)
  have ne': "forID i (ls @ [l]) \<noteq> []" using False by (simp add: forID_snoc)
  show ?thesis using False ne' mx sg
    by (auto simp: expectedMessage_def Let_def max_def)
qed

lemma word32_of_nat_eq:
  "i < 2 ^ 32 \<Longrightarrow> j < 2 ^ 32 \<Longrightarrow> (word_of_nat i = (word_of_nat j :: 32 word)) = (i = j)"
  by (simp add: word_of_nat_eq_iff take_bit_nat_eq_self)

lemma parseLine_skip:
  "decodeLine l = None \<Longrightarrow> parseLine (m, w) l = (m, True)"
  by (simp add: parseLine_def)

lemma parseLine_accept:
  "decodeLine l = Some (j, d, dw, s) \<Longrightarrow>
   parseLine (m, w) l =
     (let key = (word_of_nat j :: 32 word);
          msg = (case m key of
                   None \<Rightarrow> \<lparr>ID = key, Name_msg = ''CAN_MSG_'' @ fmtUint j,
                             DLC = d, Node = defaultNode, Signals = []\<rparr>
                 | Some m' \<Rightarrow> if d > DLC m' then m'\<lparr>DLC := d\<rparr> else m')
      in (m(key \<mapsto> msg\<lparr>Signals := Signals msg @ [s]\<rparr>), w \<or> dw))"
  by (simp add: parseLine_def)

lemma parse_lookup:
  "i < 2 ^ 32 \<Longrightarrow>
   fst (foldl parseLine (Map.empty, w) lines) (word_of_nat i) = expectedMessage i lines"
proof (induction lines arbitrary: i rule: rev_induct)
  case Nil
  show ?case by (simp add: expectedMessage_def forID_def accepted_def)
next
  case (snoc l ls)
  obtain m w' where st: "foldl parseLine (Map.empty, w) ls = (m, w')"
    by (cases "foldl parseLine (Map.empty, w) ls")
  have IH: "m (word_of_nat j) = expectedMessage j ls" if "j < 2 ^ 32" for j
    using snoc.IH [OF that] st by simp
  have step: "foldl parseLine (Map.empty, w) (ls @ [l]) = parseLine (m, w') l"
    using st by simp
  show ?case
  proof (cases "decodeLine l")
    case None
    then show ?thesis
      using IH [OF snoc.prems] by (simp only: step parseLine_skip fst_conv expectedMessage_skip)
  next
    case (Some e)
    obtain j d dw s where e: "e = (j, d, dw, s)" by (cases e)
    have dl: "decodeLine l = Some (j, d, dw, s)" using Some e by simp
    have jb: "j < 2 ^ 32" using decodeLine_id_bound [OF dl] .
    show ?thesis
    proof (cases "i = j")
      case False
      then have "word_of_nat j \<noteq> (word_of_nat i :: 32 word)"
        using word32_of_nat_eq [OF jb snoc.prems] by simp
      then show ?thesis
        using IH [OF snoc.prems] False
        unfolding step parseLine_accept [OF dl]
        by (simp add: Let_def expectedMessage_other [OF dl])
    next
      case True
      show ?thesis
        using IH [OF jb] True expectedMessage_same [OF dl, of ls]
        unfolding step parseLine_accept [OF dl]
        by (simp add: Let_def)
    qed
  qed
qed

lemma parseSignalLines_lookup:
  "i < 2 ^ 32 \<Longrightarrow> fst (parseSignalLines lines) (word_of_nat i) = expectedMessage i lines"
  by (simp add: parseSignalLines_def parse_lookup)

lemma parseSignalLines_key:
  "fst (parseSignalLines lines) k = expectedMessage (unat k) lines"
  using parseSignalLines_lookup [of "unat k" lines] unsigned_less [of k]
  by simp

section \<open>Evaluated example lines\<close>

lemmas line_eval =
  decodeLine_def Trim_def ParseUint_def Atoi_def ParseInt_def isDigit_def digitVal_def
  cutoff_def Let_def

lemma decode_a5_dlc8:
  "decodeLine ''a,5,u,0,8,0,1,0,0,signed,intel,8'' =
     Some (5, 8, False,
       \<lparr>Name = ''a'', StartBit = 0, Length = 8, ByteOrder = 1, IsSigned = True,
        Factor = ParseFloat ''1'', Offset = ParseFloat ''0'', Min_sig = ParseFloat ''0'',
        Max_sig = ParseFloat ''0'', Unit = ''u''\<rparr>)"
  by (simp add: line_eval)

lemma decode_b5_dlc3:
  "decodeLine ''b,5,u,8,8,0,1,0,0,unsigned,motorola,3'' =
     Some (5, 3, False,
       \<lparr>Name = ''b'', StartBit = 8, Length = 8, ByteOrder = 0, IsSigned = False,
        Factor = ParseFloat ''1'', Offset = ParseFloat ''0'', Min_sig = ParseFloat ''0'',
        Max_sig = ParseFloat ''0'', Unit = ''u''\<rparr>)"
  by (simp add: line_eval)



lemma Atoi_not_a_number: "Atoi ''8x'' = (0, Some ErrSyntax)"
  by (simp add: line_eval)


lemma fmtUint_5: "fmtUint 5 = ''5''"
  by (simp add: fmtUint.simps char_of_eq_iff)

section \<open>Claims about the line parser and model builder\<close>

lemma set_accepted: "set (accepted ls) = {e. \<exists>l\<in>set ls. decodeLine l = Some e}"
  by (induction ls) (auto simp: accepted_def split: option.splits)

lemma set_dlcsFor:
  "set (dlcsFor i ls) = {d. \<exists>l\<in>set ls. \<exists>dw s. decodeLine l = Some (i, d, dw, s)}"
  by (force simp: dlcsFor_def forID_def set_accepted)

lemma dlcsFor_bound: "dlcsFor i ls \<noteq> [] \<Longrightarrow> i < 2 ^ 32"
proof -
  assume "dlcsFor i ls \<noteq> []"
  then have "set (dlcsFor i ls) \<noteq> {}" by simp
  then obtain l d dw s where "decodeLine l = Some (i, d, dw, s)"
    unfolding set_dlcsFor by blast
  then show ?thesis by (rule decodeLine_id_bound)
qed

lemma expectedMessage_ID:
  "expectedMessage i ls = Some m \<Longrightarrow> ID m = word_of_nat i"
  by (auto simp: expectedMessage_def split: if_splits)

text \<open>
  C4. When at least one accepted line carries message ID \<open>i\<close>, the builder holds one
  message under that ID, its \<open>DLC\<close> is the maximum of the DLC values of the lines with
  that ID, and the same holds for the same lines given in any other order (\<open>lines'\<close>),
  so both orders give the same DLC. Every message sits under the key that is its ID,
  so no second message has that ID.
\<close>

theorem C4_dlc_is_maximum:
  assumes "dlcsFor i lines \<noteq> []" and "set lines' = set lines"
  shows "\<exists>m m'. fst (parseSignalLines lines) (word_of_nat i) = Some m
              \<and> fst (parseSignalLines lines') (word_of_nat i) = Some m'
              \<and> ID m = word_of_nat i
              \<and> DLC m = Max (set (dlcsFor i lines))
              \<and> DLC m' = DLC m
              \<and> (\<forall>k m''. fst (parseSignalLines lines) k = Some m'' \<longrightarrow> ID m'' = k)"
proof -
  have ib: "i < 2 ^ 32" using assms(1) by (rule dlcsFor_bound)
  have same: "set (dlcsFor i lines') = set (dlcsFor i lines)"
    using assms(2) by (simp add: set_dlcsFor)
  then have ne': "dlcsFor i lines' \<noteq> []" using assms(1) by (metis set_empty)
  have f: "forID i lines \<noteq> []" using assms(1) by (auto simp: dlcsFor_def)
  have f': "forID i lines' \<noteq> []" using ne' by (auto simp: dlcsFor_def)
  have keyed: "ID m'' = k" if "fst (parseSignalLines lines) k = Some m''" for k m''
    using that expectedMessage_ID [of "unat k" lines m''] by (simp add: parseSignalLines_key)
  show ?thesis
    using f f' same keyed
    by (simp add: parseSignalLines_lookup [OF ib] expectedMessage_def)
qed

theorem C4_witness:
  "dlcsFor 5 [''a,5,u,0,8,0,1,0,0,signed,intel,8'', ''b,5,u,8,8,0,1,0,0,unsigned,motorola,3'']
     = [8, 3]
   \<and> (\<exists>m m'. fst (parseSignalLines
                    [''a,5,u,0,8,0,1,0,0,signed,intel,8'',
                     ''b,5,u,8,8,0,1,0,0,unsigned,motorola,3'']) 5 = Some m
            \<and> fst (parseSignalLines
                    [''b,5,u,8,8,0,1,0,0,unsigned,motorola,3'',
                     ''a,5,u,0,8,0,1,0,0,signed,intel,8'']) 5 = Some m'
            \<and> DLC m = 8 \<and> DLC m' = 8)"
proof -
  let ?A = "''a,5,u,0,8,0,1,0,0,signed,intel,8''"
  let ?B = "''b,5,u,8,8,0,1,0,0,unsigned,motorola,3''"
  have d: "dlcsFor 5 [?A, ?B] = [8, 3]"
    by (simp add: dlcsFor_def forID_def accepted_def decode_a5_dlc8 decode_b5_dlc3)
  have ne: "dlcsFor 5 [?A, ?B] \<noteq> []" using d by simp
  have s: "set [?B, ?A] = set [?A, ?B]" by auto
  show ?thesis
    using C4_dlc_is_maximum [OF ne s] d by auto
qed









lemma decodeLine_Name:
  "decodeLine l = Some (i, d, dw, s) \<Longrightarrow>
   Name s = Split (Trim l [CHR '' '', CHR 0x09, CHR '','']) (CHR '','') ! 0"
  by (auto simp: decodeLine_def Let_def split: if_splits prod.splits option.splits)

lemma names_signalsFor:
  "map Name (signalsFor i ls) =
     map (\<lambda>l. Split (Trim l [CHR '' '', CHR 0x09, CHR '','']) (CHR '','') ! 0)
       (filter (\<lambda>l. map_option fst (decodeLine l) = Some i) ls)"
proof (induction ls)
  case Nil
  show ?case by (simp add: signalsFor_def forID_def accepted_def)
next
  case (Cons l ls)
  show ?case
  proof (cases "decodeLine l")
    case None
    then show ?thesis using Cons.IH
      by (simp add: signalsFor_def forID_def accepted_def)
  next
    case (Some e)
    obtain j d dw s where e: "e = (j, d, dw, s)" by (cases e)
    then have dl: "decodeLine l = Some (j, d, dw, s)" using Some by simp
    show ?thesis using Cons.IH dl decodeLine_Name [OF dl]
      by (simp add: signalsFor_def forID_def accepted_def)
  qed
qed

text \<open>
  C9 (as amended). The builder does not make signal names unique. The names of the
  signals of a message are the first fields of the accepted lines that carry the
  message's ID, in input order and with repetitions kept; they are pairwise different
  exactly when those first fields are.
\<close>

theorem C9_signal_names_follow_the_lines:
  assumes "fst (parseSignalLines lines) k = Some m"
  shows "map Name (Signals m) =
           map (\<lambda>l. Split (Trim l [CHR '' '', CHR 0x09, CHR '','']) (CHR '','') ! 0)
             (filter (\<lambda>l. map_option fst (decodeLine l) = Some (unat k)) lines)
       \<and> distinct (map Name (Signals m)) =
           distinct (map (\<lambda>l. Split (Trim l [CHR '' '', CHR 0x09, CHR '','']) (CHR '','') ! 0)
             (filter (\<lambda>l. map_option fst (decodeLine l) = Some (unat k)) lines))"
proof -
  have "expectedMessage (unat k) lines = Some m"
    using assms by (simp add: parseSignalLines_key)
  then have "Signals m = signalsFor (unat k) lines"
    by (auto simp: expectedMessage_def split: if_splits)
  then show ?thesis by (simp add: names_signalsFor)
qed

lemma parse_twice_a5:
  "fst (parseSignalLines [''a,5,u,0,8,0,1,0,0,signed,intel,8'',
                          ''a,5,u,0,8,0,1,0,0,signed,intel,8'']) 5 =
     Some \<lparr>ID = 5, Name_msg = ''CAN_MSG_5'', DLC = 8, Node = ''VECTOR__XXX'',
           Signals = [\<lparr>Name = ''a'', StartBit = 0, Length = 8, ByteOrder = 1,
                       IsSigned = True, Factor = ParseFloat ''1'',
                       Offset = ParseFloat ''0'', Min_sig = ParseFloat ''0'',
                       Max_sig = ParseFloat ''0'', Unit = ''u''\<rparr>,
                      \<lparr>Name = ''a'', StartBit = 0, Length = 8, ByteOrder = 1,
                       IsSigned = True, Factor = ParseFloat ''1'',
                       Offset = ParseFloat ''0'', Min_sig = ParseFloat ''0'',
                       Max_sig = ParseFloat ''0'', Unit = ''u''\<rparr>]\<rparr>"
  by (simp add: parseSignalLines_def parseLine_accept [OF decode_a5_dlc8]
        fmtUint_5 defaultNode_def)

theorem C9_witness:
  "map Name (Signals
      \<lparr>ID = 5, Name_msg = ''CAN_MSG_5'', DLC = 8, Node = ''VECTOR__XXX'',
       Signals = [\<lparr>Name = ''a'', StartBit = 0, Length = 8, ByteOrder = 1,
                   IsSigned = True, Factor = ParseFloat ''1'',
                   Offset = ParseFloat ''0'', Min_sig = ParseFloat ''0'',
                   Max_sig = ParseFloat ''0'', Unit = ''u''\<rparr>,
                  \<lparr>Name = ''a'', StartBit = 0, Length = 8, ByteOrder = 1,
                   IsSigned = True, Factor = ParseFloat ''1'',
                   Offset = ParseFloat ''0'', Min_sig = ParseFloat ''0'',
                   Max_sig = ParseFloat ''0'', Unit = ''u''\<rparr>]\<rparr>) =
     map (\<lambda>l. Split (Trim l [CHR '' '', CHR 0x09, CHR '','']) (CHR '','') ! 0)
       (filter (\<lambda>l. map_option fst (decodeLine l) = Some (unat (5 :: 32 word)))
          [''a,5,u,0,8,0,1,0,0,signed,intel,8'', ''a,5,u,0,8,0,1,0,0,signed,intel,8''])"
  using C9_signal_names_follow_the_lines [OF parse_twice_a5] by simp

theorem C9_counterexample:
  "fst (parseSignalLines [''a,5,u,0,8,0,1,0,0,signed,intel,8'',
                          ''a,5,u,0,8,0,1,0,0,signed,intel,8'']) 5 =
     Some \<lparr>ID = 5, Name_msg = ''CAN_MSG_5'', DLC = 8, Node = ''VECTOR__XXX'',
           Signals = [\<lparr>Name = ''a'', StartBit = 0, Length = 8, ByteOrder = 1,
                       IsSigned = True, Factor = ParseFloat ''1'',
                       Offset = ParseFloat ''0'', Min_sig = ParseFloat ''0'',
                       Max_sig = ParseFloat ''0'', Unit = ''u''\<rparr>,
                      \<lparr>Name = ''a'', StartBit = 0, Length = 8, ByteOrder = 1,
                       IsSigned = True, Factor = ParseFloat ''1'',
                       Offset = ParseFloat ''0'', Min_sig = ParseFloat ''0'',
                       Max_sig = ParseFloat ''0'', Unit = ''u''\<rparr>]\<rparr>
   \<and> \<not> distinct [''a'', ''a'']"
  using parse_twice_a5 by simp

lemma parseLine_flag_irrelevant:
  "fst (parseLine (m, w) l) = fst (parseLine (m, w') l)"
  by (simp add: parseLine_def Let_def split: option.splits)

lemma foldl_parseLine_flag_irrelevant:
  "fst (foldl parseLine (m, w) ls) = fst (foldl parseLine (m, w') ls)"
proof (induction ls arbitrary: m w w')
  case Nil
  show ?case by simp
next
  case (Cons l ls)
  obtain m1 w1 where a: "parseLine (m, w) l = (m1, w1)" by (cases "parseLine (m, w) l")
  obtain m2 w2 where b: "parseLine (m, w') l = (m2, w2)" by (cases "parseLine (m, w') l")
  have "m1 = m2" using parseLine_flag_irrelevant [of m w l w'] a b by simp
  then show ?case using a b Cons.IH [of m1 w1 w2] by simp
qed

lemma parseLine_flag_stays:
  "snd (parseLine (m, True) l)"
  by (simp add: parseLine_def Let_def split: option.splits)

lemma foldl_parseLine_flag_stays:
  "snd (foldl parseLine (m, True) ls)"
proof (induction ls arbitrary: m)
  case Nil
  show ?case by simp
next
  case (Cons l ls)
  obtain m1 w1 where a: "parseLine (m, True) l = (m1, w1)" by (cases "parseLine (m, True) l")
  then have "w1" using parseLine_flag_stays [of m l] by simp
  then show ?case using a Cons.IH [of m1] by simp
qed

text \<open>
  C10. A line whose message-ID field contains a byte that is not a decimal digit (a
  sign included), or is a decimal number above 4294967295, is skipped with the warning
  flag set: the loop body leaves the message map as it was, and the messages built
  from the whole input are those built from the input without that line.
\<close>

theorem C10_invalid_message_id_skips_line:
  assumes "parts = Split (Trim line [CHR '' '', CHR 0x09, CHR '','']) (CHR '','')"
    and "1 < length parts"
    and "(\<exists>c\<in>set (parts ! 1). \<not> isDigit c) \<or> decimalValue (parts ! 1) > 4294967295"
  shows "decodeLine line = None
       \<and> parseLine (messages, w) line = (messages, True)
       \<and> fst (parseSignalLines (pre @ line # post)) = fst (parseSignalLines (pre @ post))
       \<and> snd (parseSignalLines (pre @ line # post))"
proof -
  have "\<exists>v err. ParseUint (parts ! 1) 32 = (v, Some err)"
    using assms(3) ParseUint_32_error [of "parts ! 1"] by blast
  then have dl: "decodeLine line = None"
    using assms(1) by (auto simp: decodeLine_def Let_def)
  have step: "parseLine (m, v) line = (m, True)" for m v
    using dl by (rule parseLine_skip)
  obtain mp wp where pre: "foldl parseLine (Map.empty, False) pre = (mp, wp)"
    by (cases "foldl parseLine (Map.empty, False) pre")
  have with_line: "parseSignalLines (pre @ line # post) = foldl parseLine (mp, True) post"
    by (simp add: parseSignalLines_def pre step)
  have without: "parseSignalLines (pre @ post) = foldl parseLine (mp, wp) post"
    by (simp add: parseSignalLines_def pre)
  show ?thesis
    using dl step [of messages w] foldl_parseLine_flag_irrelevant [of mp True post wp]
      foldl_parseLine_flag_stays [of mp post]
    by (simp add: with_line without)
qed

theorem C10_witness:
  "1 < length (Split (Trim ''a,4294967296,u,0,8,0,1,0,0,signed,intel,8''
                        [CHR '' '', CHR 0x09, CHR '','']) (CHR '',''))
   \<and> decimalValue ''4294967296'' > 4294967295
   \<and> decodeLine ''a,4294967296,u,0,8,0,1,0,0,signed,intel,8'' = None
   \<and> fst (parseSignalLines
        [''a,5,u,0,8,0,1,0,0,signed,intel,8'', ''a,4294967296,u,0,8,0,1,0,0,signed,intel,8''])
       = fst (parseSignalLines [''a,5,u,0,8,0,1,0,0,signed,intel,8''])
   \<and> snd (parseSignalLines
        [''a,5,u,0,8,0,1,0,0,signed,intel,8'', ''a,4294967296,u,0,8,0,1,0,0,signed,intel,8''])
   \<and> \<not> isDigit (CHR ''-'')
   \<and> decodeLine ''a,-5,u,0,8,0,1,0,0,signed,intel,8'' = None"
proof -
  let ?L = "''a,4294967296,u,0,8,0,1,0,0,signed,intel,8''"
  let ?P = "Split (Trim ?L [CHR '' '', CHR 0x09, CHR '','']) (CHR '','')"
  let ?M = "''a,-5,u,0,8,0,1,0,0,signed,intel,8''"
  let ?Q = "Split (Trim ?M [CHR '' '', CHR 0x09, CHR '','']) (CHR '','')"
  have p: "?P = [''a'', ''4294967296'', ''u'', ''0'', ''8'', ''0'', ''1'', ''0'', ''0'',
                 ''signed'', ''intel'', ''8'']"
    by (simp add: Trim_def)
  have q: "?Q = [''a'', ''-5'', ''u'', ''0'', ''8'', ''0'', ''1'', ''0'', ''0'',
                 ''signed'', ''intel'', ''8'']"
    by (simp add: Trim_def)
  have n: "1 < length ?P" unfolding p by simp
  have n': "1 < length ?Q" unfolding q by simp
  have big: "decimalValue ''4294967296'' > 4294967295"
    by (simp add: decimalValue_def digitVal_def)
  have bad: "(\<exists>c\<in>set (?P ! 1). \<not> isDigit c) \<or> decimalValue (?P ! 1) > 4294967295"
    unfolding p using big by simp
  have sign: "\<not> isDigit (CHR ''-'')" by (simp add: isDigit_def)
  have bad': "(\<exists>c\<in>set (?Q ! 1). \<not> isDigit c) \<or> decimalValue (?Q ! 1) > 4294967295"
    unfolding q using sign by simp
  show ?thesis
    using C10_invalid_message_id_skips_line
            [OF refl n bad, of Map.empty False "[''a,5,u,0,8,0,1,0,0,signed,intel,8'']" "[]"]
          C10_invalid_message_id_skips_line [OF refl n' bad', of Map.empty False "[]" "[]"]
          n big sign
    by simp
qed

section \<open>Reading a well-framed container\<close>

lemma u16be_value:
  "(n :: nat) < 65536 \<Longrightarrow>
   of_char (char_of (n div 256)) * 256 + of_char (char_of (n mod 256)) = n"
proof -
  assume "n < 65536"
  then have "n div 256 < 256" by simp
  then have "(n div 256) mod 256 = n div 256" by simp
  then show ?thesis by simp
qed

lemma ReadUint16_u16be:
  "n < 65536 \<Longrightarrow>
   ReadUint16 \<lparr>rest = u16be n @ t, fault = f\<rparr> = Inr (n, \<lparr>rest = t, fault = f\<rparr>)"
  using u16be_value [of n] by (simp add: ReadUint16_def ReadFull_def u16be_def)

lemma readZlibStr_frame:
  "length p < 65536 \<Longrightarrow>
   readZlibStr \<lparr>rest = frame p @ t, fault = f\<rparr> = Inr (p, \<lparr>rest = t, fault = f\<rparr>)"
  by (simp add: readZlibStr_def frame_def ReadUint16_u16be ReadFull_def)

lemma readZlibStr_truncated:
  "n < 65536 \<Longrightarrow> length t < n \<Longrightarrow>
   readZlibStr \<lparr>rest = u16be n @ t, fault = f\<rparr> = Inl (DataUnreadable n (shortRead f t))"
  by (simp add: readZlibStr_def ReadUint16_u16be ReadFull_def shortRead_def)

lemma readUpToCRLF_field:
  "\<not> hasCRLF h \<Longrightarrow>
   readUpToCRLF \<lparr>rest = h @ CR # LF # t, fault = f\<rparr>
     = Inr (h, \<lparr>rest = CR # LF # t, fault = f\<rparr>)"
  using readUpToCRLF_loop_field [of h "[]" t f] by (simp add: readUpToCRLF_def)

lemma skipHeaders_framed:
  assumes "\<not> hasCRLF header" and "\<not> hasCRLF serial" and "length blob < 65536"
  shows "skipHeaders \<lparr>rest = header @ CR # LF # serial @ CR # LF # frame blob @ t, fault = f\<rparr>
           = Inr \<lparr>rest = t, fault = f\<rparr>"
proof -
  have a: "readUpToCRLF \<lparr>rest = header @ CR # LF # serial @ CR # LF # frame blob @ t, fault = f\<rparr>
      = Inr (header, \<lparr>rest = CR # LF # serial @ CR # LF # frame blob @ t, fault = f\<rparr>)"
    using readUpToCRLF_field [OF assms(1), of "serial @ CR # LF # frame blob @ t" f] by simp
  have b: "Discard 2 \<lparr>rest = CR # LF # serial @ CR # LF # frame blob @ t, fault = f\<rparr>
      = Inr \<lparr>rest = serial @ CR # LF # frame blob @ t, fault = f\<rparr>"
    by (simp add: Discard_def)
  have c: "readUpToCRLF \<lparr>rest = serial @ CR # LF # frame blob @ t, fault = f\<rparr>
      = Inr (serial, \<lparr>rest = CR # LF # frame blob @ t, fault = f\<rparr>)"
    using readUpToCRLF_field [OF assms(2), of "frame blob @ t" f] by simp
  have d: "Discard 2 \<lparr>rest = CR # LF # frame blob @ t, fault = f\<rparr>
      = Inr \<lparr>rest = frame blob @ t, fault = f\<rparr>"
    by (simp add: Discard_def)
  show ?thesis
    by (simp add: skipHeaders_def a b c d readZlibStr_frame [OF assms(3)])
qed

lemma skipHeaders_blob_truncated:
  assumes "\<not> hasCRLF header" and "\<not> hasCRLF serial" and "n < 65536" and "length t < n"
  shows "skipHeaders \<lparr>rest = header @ CR # LF # serial @ CR # LF # u16be n @ t, fault = f\<rparr>
           = Inl (ErrZlibSerial (DataUnreadable n (shortRead f t)))"
proof -
  have a: "readUpToCRLF \<lparr>rest = header @ CR # LF # serial @ CR # LF # u16be n @ t, fault = f\<rparr>
      = Inr (header, \<lparr>rest = CR # LF # serial @ CR # LF # u16be n @ t, fault = f\<rparr>)"
    using readUpToCRLF_field [OF assms(1), of "serial @ CR # LF # u16be n @ t" f] by simp
  have b: "Discard 2 \<lparr>rest = CR # LF # serial @ CR # LF # u16be n @ t, fault = f\<rparr>
      = Inr \<lparr>rest = serial @ CR # LF # u16be n @ t, fault = f\<rparr>"
    by (simp add: Discard_def)
  have c: "readUpToCRLF \<lparr>rest = serial @ CR # LF # u16be n @ t, fault = f\<rparr>
      = Inr (serial, \<lparr>rest = CR # LF # u16be n @ t, fault = f\<rparr>)"
    using readUpToCRLF_field [OF assms(2), of "u16be n @ t" f] by simp
  have d: "Discard 2 \<lparr>rest = CR # LF # u16be n @ t, fault = f\<rparr>
      = Inr \<lparr>rest = u16be n @ t, fault = f\<rparr>"
    by (simp add: Discard_def)
  show ?thesis
    by (simp add: skipHeaders_def a b c d readZlibStr_truncated [OF assms(3) assms(4)])
qed

lemma decompressEntries_frames:
  assumes "\<forall>p\<in>set ps. length p < 65536"
  shows "decompressEntries zd (i + length ps) i \<lparr>rest = concat (map frame ps) @ t, fault = f\<rparr> w ls
           = (w \<or> (\<exists>p\<in>set ps. zd p = None),
              Inr (\<lparr>rest = t, fault = f\<rparr>, ls @ concat (map (linesOf zd) ps)))"
  using assms
proof (induction ps arbitrary: i w ls)
  case Nil
  show ?case by (subst decompressEntries.simps) simp
next
  case (Cons p ps)
  have lp: "length p < 65536" using Cons.prems by simp
  have rest: "\<forall>q\<in>set ps. length q < 65536" using Cons.prems by simp
  have rd: "readZlibStr \<lparr>rest = frame p @ concat (map frame ps) @ t, fault = f\<rparr>
      = Inr (p, \<lparr>rest = concat (map frame ps) @ t, fault = f\<rparr>)"
    using readZlibStr_frame [OF lp, of "concat (map frame ps) @ t" f] by simp
  show ?case
  proof (cases "zd p")
    case None
    then have lo: "linesOf zd p = []" by (simp add: linesOf_def)
    show ?thesis
      using Cons.IH [OF rest, of "Suc i" True ls]
      by (subst decompressEntries.simps) (simp add: rd None lo)
  next
    case (Some d)
    then have lo: "linesOf zd p = entryLines d" by (simp add: linesOf_def)
    show ?thesis
      using Cons.IH [OF rest, of "Suc i" w "ls @ entryLines d"]
      by (subst decompressEntries.simps) (simp add: rd Some lo)
  qed
qed

lemma decompressEntries_truncated:
  assumes "\<forall>p\<in>set ps. length p < 65536" and "i + length ps < count"
    and "n < 65536" and "length t < n"
  shows "decompressEntries zd count i
           \<lparr>rest = concat (map frame ps) @ u16be n @ t, fault = f\<rparr> w ls
           = (w \<or> (\<exists>p\<in>set ps. zd p = None),
              Inl (ErrEntry (i + length ps + 1) (DataUnreadable n (shortRead f t))))"
  using assms(1,2)
proof (induction ps arbitrary: i w ls)
  case Nil
  then show ?case
    by (subst decompressEntries.simps)
       (simp add: readZlibStr_truncated [OF assms(3) assms(4)])
next
  case (Cons p ps)
  have lp: "length p < 65536" using Cons.prems by simp
  have rest: "\<forall>q\<in>set ps. length q < 65536" using Cons.prems by simp
  have more: "(i + 1) + length ps < count" using Cons.prems by simp
  have here: "i < count" using Cons.prems by simp
  have rd: "readZlibStr \<lparr>rest = frame p @ concat (map frame ps) @ u16be n @ t, fault = f\<rparr>
      = Inr (p, \<lparr>rest = concat (map frame ps) @ u16be n @ t, fault = f\<rparr>)"
    using readZlibStr_frame [OF lp, of "concat (map frame ps) @ u16be n @ t" f] by simp
  show ?case
  proof (cases "zd p")
    case None
    show ?thesis
      using Cons.IH [OF rest more, of True ls]
      by (subst decompressEntries.simps) (simp add: here rd None)
  next
    case (Some d)
    show ?thesis
      using Cons.IH [OF rest more, of w "ls @ entryLines d"]
      by (subst decompressEntries.simps) (simp add: here rd Some)
  qed
qed

lemma processFile_container:
  assumes "\<not> hasCRLF header" and "\<not> hasCRLF serial" and "length blob < 65536"
    and "length entries < 65536" and "\<forall>p\<in>set entries. length p < 65536"
  shows "processFile zd \<lparr>rest = container header serial blob entries @ extra, fault = f\<rparr> =
           (if extra = [] \<and> f
              then (\<exists>p\<in>set entries. zd p = None, Inl (ErrRemaining ErrIO))
            else ((\<exists>p\<in>set entries. zd p = None) \<or> extra \<noteq> []
                    \<or> snd (parseSignalLines (concat (map (linesOf zd) entries))),
                  Inr (concat (map (linesOf zd) entries),
                       fst (parseSignalLines (concat (map (linesOf zd) entries))))))"
proof -
  let ?body = "u16be (length entries) @ concat (map frame entries) @ extra"
  have c: "container header serial blob entries @ extra
      = header @ CR # LF # serial @ CR # LF # frame blob @ ?body"
    by (simp add: container_def)
  have h: "skipHeaders \<lparr>rest = container header serial blob entries @ extra, fault = f\<rparr>
      = Inr \<lparr>rest = ?body, fault = f\<rparr>"
    unfolding c by (rule skipHeaders_framed [OF assms(1,2,3)])
  have n: "ReadUint16 \<lparr>rest = ?body, fault = f\<rparr>
      = Inr (length entries, \<lparr>rest = concat (map frame entries) @ extra, fault = f\<rparr>)"
    by (rule ReadUint16_u16be [OF assms(4)])
  have l: "decompressEntries zd (length entries) 0
             \<lparr>rest = concat (map frame entries) @ extra, fault = f\<rparr> False []
      = (\<exists>p\<in>set entries. zd p = None,
         Inr (\<lparr>rest = extra, fault = f\<rparr>, concat (map (linesOf zd) entries)))"
    using decompressEntries_frames [OF assms(5), of zd 0 extra f False "[]"] by simp
  have "processFile zd \<lparr>rest = container header serial blob entries @ extra, fault = f\<rparr> =
      (case ReadByte \<lparr>rest = extra, fault = f\<rparr> of
         Inr (b, r8) \<Rightarrow>
           (True, Inr (concat (map (linesOf zd) entries),
                       fst (parseSignalLines (concat (map (linesOf zd) entries)))))
       | Inl err \<Rightarrow>
           if err \<noteq> EOF then (\<exists>p\<in>set entries. zd p = None, Inl (ErrRemaining err))
           else ((\<exists>p\<in>set entries. zd p = None)
                   \<or> snd (parseSignalLines (concat (map (linesOf zd) entries))),
                 Inr (concat (map (linesOf zd) entries),
                      fst (parseSignalLines (concat (map (linesOf zd) entries))))))"
    by (simp add: processFile_def h n l split: prod.splits sum.splits)
  then show ?thesis
    by (cases extra) (simp_all add: ReadByte_def endErr_def)
qed

section \<open>Evaluated example entries\<close>

lemma inflate_entryA:
  "inflateStored entryA = Some (''a,5,u,0,8,0,1,0,0,signed,intel,8'' @ [LF])"
  by (simp add: inflateStored_def entryA_def storedBlocks.simps adler32_def LF_def)

lemma inflate_entryB:
  "inflateStored entryB =
     Some (''b,5,u,8,8,0,1,0,0,unsigned,motorola,3'' @ [CR, LF, CHR 0x20, CR, LF])"
  by (simp add: inflateStored_def entryB_def storedBlocks.simps adler32_def LF_def CR_def)

lemma inflate_entryBad: "inflateStored entryBad = None"
  by (simp add: inflateStored_def entryBad_def)

lemma inflate_not_zlib: "inflateStored [CHR 0x00, CHR 0x01, CHR 0x02] = None"
  by (simp add: inflateStored_def)

lemma lines_entryA:
  "entryLines (''a,5,u,0,8,0,1,0,0,signed,intel,8'' @ [LF])
     = [''a,5,u,0,8,0,1,0,0,signed,intel,8'']"
  by (simp add: entryLines_def scanLines.simps maxScanTokenSize_def dropCR_def
        LF_def CR_def asciiSpace_def)

lemma lines_entryB:
  "entryLines (''b,5,u,8,8,0,1,0,0,unsigned,motorola,3'' @ [CR, LF, CHR 0x20, CR, LF])
     = [''b,5,u,8,8,0,1,0,0,unsigned,motorola,3'']"
  by (simp add: entryLines_def scanLines.simps maxScanTokenSize_def dropCR_def
        LF_def CR_def asciiSpace_def)

lemma example_fields: "\<not> hasCRLF ''RACELOGIC''" "\<not> hasCRLF ''SN123''"
  by (simp_all add: CR_def LF_def)

lemma example_lengths:
  "length entryA < 65536" "length entryB < 65536" "length entryBad < 65536"
  by (simp_all add: entryA_def entryB_def entryBad_def)

lemma parse_line_a5:
  "parseSignalLines [''a,5,u,0,8,0,1,0,0,signed,intel,8''] =
     ([5 \<mapsto> \<lparr>ID = 5, Name_msg = ''CAN_MSG_5'', DLC = 8, Node = ''VECTOR__XXX'',
             Signals = [\<lparr>Name = ''a'', StartBit = 0, Length = 8, ByteOrder = 1,
                         IsSigned = True, Factor = ParseFloat ''1'',
                         Offset = ParseFloat ''0'', Min_sig = ParseFloat ''0'',
                         Max_sig = ParseFloat ''0'', Unit = ''u''\<rparr>]\<rparr>], False)"
  by (simp add: parseSignalLines_def parseLine_accept [OF decode_a5_dlc8]
        fmtUint_5 defaultNode_def)

section \<open>Claims about the container reader\<close>

text \<open>
  C2 (as amended). The block before the entry count is read by \<open>readZlibStr\<close> and
  its payload is dropped without being decompressed: after the two header fields and a
  block that is framed in full, the reader stands right behind the block whatever the
  payload is, and the outcome of the conversion is the same for any two payloads.
\<close>

theorem C2_serial_block_is_skipped_unexamined:
  assumes "\<not> hasCRLF header" and "\<not> hasCRLF serial"
    and "length blob < 65536" and "length blob' < 65536"
  shows "skipHeaders \<lparr>rest = header @ CR # LF # serial @ CR # LF # frame blob @ t, fault = f\<rparr>
           = Inr \<lparr>rest = t, fault = f\<rparr>
       \<and> processFile zd \<lparr>rest = header @ CR # LF # serial @ CR # LF # frame blob @ t, fault = f\<rparr>
           = processFile zd \<lparr>rest = header @ CR # LF # serial @ CR # LF # frame blob' @ t, fault = f\<rparr>"
  using skipHeaders_framed [OF assms(1,2,3), of t f] skipHeaders_framed [OF assms(1,2,4), of t f]
  by (simp add: processFile_def)

theorem C2_witness:
  "\<not> hasCRLF ''RACELOGIC'' \<and> \<not> hasCRLF ''SN123''
   \<and> length [CHR 0x00, CHR 0x01, CHR 0x02] < 65536 \<and> length entryA < 65536
   \<and> inflateStored [CHR 0x00, CHR 0x01, CHR 0x02] = None
   \<and> inflateStored entryA = Some (''a,5,u,0,8,0,1,0,0,signed,intel,8'' @ [LF])
   \<and> skipHeaders \<lparr>rest = ''RACELOGIC'' @ CR # LF # ''SN123'' @ CR # LF
                        # frame [CHR 0x00, CHR 0x01, CHR 0x02] @ u16be 0, fault = False\<rparr>
       = Inr \<lparr>rest = u16be 0, fault = False\<rparr>
   \<and> processFile inflateStored
        \<lparr>rest = ''RACELOGIC'' @ CR # LF # ''SN123'' @ CR # LF
                 # frame [CHR 0x00, CHR 0x01, CHR 0x02] @ u16be 0, fault = False\<rparr>
       = processFile inflateStored
        \<lparr>rest = ''RACELOGIC'' @ CR # LF # ''SN123'' @ CR # LF
                 # frame entryA @ u16be 0, fault = False\<rparr>"
  using C2_serial_block_is_skipped_unexamined
          [OF example_fields, of "[CHR 0x00, CHR 0x01, CHR 0x02]" entryA "u16be 0" False
             inflateStored]
        example_fields example_lengths inflate_not_zlib inflate_entryA
  by simp

theorem C2_counterexample:
  "inflateStored [CHR 0x00, CHR 0x01, CHR 0x02] = None
   \<and> processFile inflateStored
        \<lparr>rest = ''H'' @ [CR, LF] @ ''S'' @ [CR, LF]
                 @ [CHR 0x00, CHR 0x03, CHR 0x00, CHR 0x01, CHR 0x02]
                 @ [CHR 0x00, CHR 0x00], fault = False\<rparr>
       = (False, Inr ([], Map.empty))"
proof -
  have h: "\<not> hasCRLF ''H''" "\<not> hasCRLF ''S''" by (simp_all add: CR_def LF_def)
  have c: "container ''H'' ''S'' [CHR 0x00, CHR 0x01, CHR 0x02] [] @ []
           = ''H'' @ [CR, LF] @ ''S'' @ [CR, LF]
             @ [CHR 0x00, CHR 0x03, CHR 0x00, CHR 0x01, CHR 0x02] @ [CHR 0x00, CHR 0x00]"
    by (simp add: container_def frame_def u16be_def char_of_eq_iff)
  show ?thesis
    unfolding c [symmetric]
    using processFile_container [OF h, of "[CHR 0x00, CHR 0x01, CHR 0x02]" "[]" inflateStored "[]" False]
    by (simp add: inflate_not_zlib parseSignalLines_def)
qed

lemma lines_of_successful_entries:
  "concat (map (linesOf zd) ps) = concat (map entryLines (List.map_filter zd ps))"
  by (induction ps) (simp_all add: linesOf_def split: option.splits)

text \<open>
  C3. In a container whose blocks are all framed in full and whose \<open>k\<close>-th entry fails
  to decompress, the conversion does not abort: the warning flag is true, the collected
  lines are the lines of the entries that did decompress, in the order of the entries,
  and the messages are those parsed from these lines.
\<close>

theorem C3_failed_entry_is_skipped:
  assumes "\<not> hasCRLF header" and "\<not> hasCRLF serial" and "length blob < 65536"
    and "length entries < 65536" and "\<forall>p\<in>set entries. length p < 65536"
    and "k < length entries" and "zd (entries ! k) = None"
  shows "processFile zd \<lparr>rest = container header serial blob entries @ extra, fault = False\<rparr> =
           (True,
            Inr (concat (map entryLines (List.map_filter zd entries)),
                 fst (parseSignalLines (concat (map entryLines (List.map_filter zd entries))))))"
proof -
  have "entries ! k \<in> set entries" using assms(6) by simp
  then have "\<exists>p\<in>set entries. zd p = None" using assms(7) by blast
  then show ?thesis
    using processFile_container [OF assms(1-5), of zd extra False]
    by (simp add: lines_of_successful_entries)
qed

theorem C3_witness:
  "\<not> hasCRLF ''RACELOGIC'' \<and> \<not> hasCRLF ''SN123''
   \<and> length [entryA, entryBad, entryB] < 65536
   \<and> length entryA < 65536 \<and> length entryBad < 65536 \<and> length entryB < 65536
   \<and> inflateStored ([entryA, entryBad, entryB] ! 1) = None
   \<and> processFile inflateStored
        \<lparr>rest = container ''RACELOGIC'' ''SN123'' [CHR 0x00, CHR 0x01, CHR 0x02]
                   [entryA, entryBad, entryB] @ [], fault = False\<rparr>
       = (True,
          Inr ([''a,5,u,0,8,0,1,0,0,signed,intel,8'', ''b,5,u,8,8,0,1,0,0,unsigned,motorola,3''],
               fst (parseSignalLines [''a,5,u,0,8,0,1,0,0,signed,intel,8'',
                                      ''b,5,u,8,8,0,1,0,0,unsigned,motorola,3''])))"
proof -
  have len: "\<forall>p\<in>set [entryA, entryBad, entryB]. length p < 65536"
    using example_lengths by simp
  have bad: "inflateStored ([entryA, entryBad, entryB] ! 1) = None"
    using inflate_entryBad by simp
  have ok: "List.map_filter inflateStored [entryA, entryBad, entryB] =
      [''a,5,u,0,8,0,1,0,0,signed,intel,8'' @ [LF],
       ''b,5,u,8,8,0,1,0,0,unsigned,motorola,3'' @ [CR, LF, CHR 0x20, CR, LF]]"
    by (simp add: inflate_entryA inflate_entryB inflate_entryBad)
  have n: "length [entryA, entryBad, entryB] < 65536" by simp
  have k: "1 < length [entryA, entryBad, entryB]" by simp
  have b: "length [CHR 0x00, CHR 0x01, CHR 0x02] < 65536" by simp
  show ?thesis
    using C3_failed_entry_is_skipped
            [where zd = inflateStored and k = 1 and extra = "[]", OF example_fields b n len k bad]
      example_fields example_lengths bad lines_entryA lines_entryB
    unfolding ok by simp
qed

text \<open>
  C7. A length-prefixed block whose declared length exceeds the bytes left in the
  file makes the conversion fail with a fatal error, for the block before the entry
  count and for any entry alike: the result is an error, not lines or messages, also
  when entries before the truncated one were read and decompressed.
\<close>

theorem C7_truncated_block_is_fatal:
  assumes "\<not> hasCRLF header" and "\<not> hasCRLF serial" and "length blob < 65536"
    and "\<forall>p\<in>set ps. length p < 65536" and "length ps < count" and "count < 65536"
    and "n < 65536" and "length t < n"
  shows "processFile zd \<lparr>rest = header @ CR # LF # serial @ CR # LF # u16be n @ t, fault = f\<rparr>
           = (False, Inl (ErrZlibSerial (DataUnreadable n (shortRead f t))))
       \<and> processFile zd
           \<lparr>rest = header @ CR # LF # serial @ CR # LF # frame blob @ u16be count
                     @ concat (map frame ps) @ u16be n @ t, fault = f\<rparr>
           = (\<exists>p\<in>set ps. zd p = None,
              Inl (ErrEntry (length ps + 1) (DataUnreadable n (shortRead f t))))"
proof -
  have a: "processFile zd \<lparr>rest = header @ CR # LF # serial @ CR # LF # u16be n @ t, fault = f\<rparr>
      = (False, Inl (ErrZlibSerial (DataUnreadable n (shortRead f t))))"
    using skipHeaders_blob_truncated [OF assms(1,2,7,8), of f]
    by (simp add: processFile_def)
  have h: "skipHeaders
             \<lparr>rest = header @ CR # LF # serial @ CR # LF # frame blob @ u16be count
                       @ concat (map frame ps) @ u16be n @ t, fault = f\<rparr>
      = Inr \<lparr>rest = u16be count @ concat (map frame ps) @ u16be n @ t, fault = f\<rparr>"
    by (rule skipHeaders_framed [OF assms(1,2,3)])
  have c: "ReadUint16 \<lparr>rest = u16be count @ concat (map frame ps) @ u16be n @ t, fault = f\<rparr>
      = Inr (count, \<lparr>rest = concat (map frame ps) @ u16be n @ t, fault = f\<rparr>)"
    by (rule ReadUint16_u16be [OF assms(6)])
  have l: "decompressEntries zd count 0
             \<lparr>rest = concat (map frame ps) @ u16be n @ t, fault = f\<rparr> False []
      = (\<exists>p\<in>set ps. zd p = None,
         Inl (ErrEntry (length ps + 1) (DataUnreadable n (shortRead f t))))"
    using decompressEntries_truncated [OF assms(4) _ assms(7,8), of 0 count zd f False "[]"]
      assms(5)
    by simp
  have b: "processFile zd
             \<lparr>rest = header @ CR # LF # serial @ CR # LF # frame blob @ u16be count
                       @ concat (map frame ps) @ u16be n @ t, fault = f\<rparr>
      = (\<exists>p\<in>set ps. zd p = None,
         Inl (ErrEntry (length ps + 1) (DataUnreadable n (shortRead f t))))"
    by (simp add: processFile_def h c l)
  show ?thesis using a b by simp
qed

theorem C7_witness:
  "\<not> hasCRLF ''RACELOGIC'' \<and> \<not> hasCRLF ''SN123''
   \<and> length [CHR 0x00, CHR 0x01, CHR 0x02] < 65536 \<and> length entryA < 65536
   \<and> length [entryA] < (2 :: nat) \<and> (2 :: nat) < 65536
   \<and> (53 :: nat) < 65536 \<and> length ''b,5,u,8'' < 53
   \<and> processFile inflateStored
        \<lparr>rest = ''RACELOGIC'' @ CR # LF # ''SN123'' @ CR # LF # u16be 53 @ ''b,5,u,8'',
           fault = False\<rparr>
       = (False, Inl (ErrZlibSerial (DataUnreadable 53 ErrUnexpectedEOF)))
   \<and> processFile inflateStored
        \<lparr>rest = ''RACELOGIC'' @ CR # LF # ''SN123'' @ CR # LF
                 # frame [CHR 0x00, CHR 0x01, CHR 0x02] @ u16be 2
                 @ concat (map frame [entryA]) @ u16be 53 @ ''b,5,u,8'',
           fault = False\<rparr>
       = (False, Inl (ErrEntry 2 (DataUnreadable 53 ErrUnexpectedEOF)))"
proof -
  have len: "\<forall>p\<in>set [entryA]. length p < 65536" using example_lengths by simp
  have b: "length [CHR 0x00, CHR 0x01, CHR 0x02] < 65536" by simp
  have k: "length [entryA] < (2 :: nat)" by simp
  have c: "(2 :: nat) < 65536" by simp
  have n: "(53 :: nat) < 65536" by simp
  have t: "length ''b,5,u,8'' < 53" by simp
  show ?thesis
    using C7_truncated_block_is_fatal
            [where zd = inflateStored and f = False, OF example_fields b len k c n t]
      example_fields example_lengths(1) inflate_entryA
    by (simp add: shortRead_def)
qed

text \<open>
  C8. After the entry loop of a container whose blocks are all framed in full, one
  more byte is read. When there is one, the warning flag is true and the lines and
  messages are those of the container without the extra data. When the file ends
  cleanly, the flag is only what the entries and the line parser raised. When the read
  fails in another way, the conversion fails with a fatal error.
\<close>

theorem C8_trailing_byte_check:
  assumes "\<not> hasCRLF header" and "\<not> hasCRLF serial" and "length blob < 65536"
    and "length entries < 65536" and "\<forall>p\<in>set entries. length p < 65536"
  shows "processFile zd
           \<lparr>rest = container header serial blob entries @ b # bs, fault = f\<rparr>
           = (True, Inr (concat (map (linesOf zd) entries),
                         fst (parseSignalLines (concat (map (linesOf zd) entries)))))
       \<and> processFile zd \<lparr>rest = container header serial blob entries, fault = False\<rparr>
           = ((\<exists>p\<in>set entries. zd p = None)
                \<or> snd (parseSignalLines (concat (map (linesOf zd) entries))),
              Inr (concat (map (linesOf zd) entries),
                   fst (parseSignalLines (concat (map (linesOf zd) entries)))))
       \<and> processFile zd \<lparr>rest = container header serial blob entries, fault = True\<rparr>
           = (\<exists>p\<in>set entries. zd p = None, Inl (ErrRemaining ErrIO))"
  using processFile_container [OF assms, of zd "b # bs" f]
    processFile_container [OF assms, of zd "[]" False]
    processFile_container [OF assms, of zd "[]" True]
  by simp

theorem C8_witness:
  "\<not> hasCRLF ''RACELOGIC'' \<and> \<not> hasCRLF ''SN123''
   \<and> length [CHR 0x00, CHR 0x01, CHR 0x02] < 65536
   \<and> length [entryA] < 65536 \<and> length entryA < 65536
   \<and> processFile inflateStored
        \<lparr>rest = container ''RACELOGIC'' ''SN123'' [CHR 0x00, CHR 0x01, CHR 0x02] [entryA]
                   @ [CHR ''x''], fault = False\<rparr>
       = (True, Inr ([''a,5,u,0,8,0,1,0,0,signed,intel,8''],
                     fst (parseSignalLines [''a,5,u,0,8,0,1,0,0,signed,intel,8''])))
   \<and> processFile inflateStored
        \<lparr>rest = container ''RACELOGIC'' ''SN123'' [CHR 0x00, CHR 0x01, CHR 0x02] [entryA],
           fault = False\<rparr>
       = (False, Inr ([''a,5,u,0,8,0,1,0,0,signed,intel,8''],
                      fst (parseSignalLines [''a,5,u,0,8,0,1,0,0,signed,intel,8''])))
   \<and> processFile inflateStored
        \<lparr>rest = container ''RACELOGIC'' ''SN123'' [CHR 0x00, CHR 0x01, CHR 0x02] [entryA],
           fault = True\<rparr>
       = (False, Inl (ErrRemaining ErrIO))"
proof -
  have len: "\<forall>p\<in>set [entryA]. length p < 65536" using example_lengths by simp
  have b: "length [CHR 0x00, CHR 0x01, CHR 0x02] < 65536" by simp
  have n: "length [entryA] < 65536" by simp
  have lo: "linesOf inflateStored entryA = [''a,5,u,0,8,0,1,0,0,signed,intel,8'']"
    using lines_entryA by (simp add: linesOf_def inflate_entryA)
  have pw: "\<not> snd (parseSignalLines [''a,5,u,0,8,0,1,0,0,signed,intel,8''])"
    by (simp add: parse_line_a5)
  show ?thesis
    using C8_trailing_byte_check
            [where zd = inflateStored and b = "CHR ''x''" and bs = "[]" and f = False,
             OF example_fields b n len]
      example_fields example_lengths(1) lo pw inflate_entryA
    by simp
qed

section \<open>Claims about the serializer\<close>

lemma writeMessages_present:
  "\<forall>k\<in>set ks. messages k \<noteq> None \<Longrightarrow>
   writeMessages fmtG messages ks
     = Some (concat (map (writeMessage fmtG) (map (\<lambda>k. the (messages k)) ks)))"
  by (induction ks) auto

lemma sort_of_enumeration:
  assumes "distinct (xs :: 32 word list)" and "distinct ys" and "set xs = set ys"
  shows "sort xs = sort ys"
proof (rule sorted_distinct_set_unique)
  show "sorted (sort xs)" "sorted (sort ys)" by simp_all
  show "distinct (sort xs)" "distinct (sort ys)" using assms(1,2) by simp_all
  show "set (sort xs) = set (sort ys)" using assms(3) by simp
qed

lemma parseSignalLines_keyed:
  "fst (parseSignalLines lines) k = Some m \<Longrightarrow> ID m = k"
  using expectedMessage_ID [of "unat k" lines m] by (simp add: parseSignalLines_key)

text \<open>
  C5. Let \<open>keys\<close> be any order in which the keys of the message map are visited, and
  let every message sit under its own ID (as in every map the builder produces). Then
  \<open>writeDBC\<close> writes the header followed by one frame block for each message of the
  map and no other: the line \<open>BO_ id name: dlc node\<close>, the message's signal lines and
  an empty line. The blocks stand in strictly ascending numeric order of the message
  IDs, and any other order of visiting the keys gives the same text.
\<close>

theorem C5_frame_blocks_ascending_by_id:
  assumes "distinct keys" and "set keys = dom messages"
    and "list_all (\<lambda>k. map_option ID (messages k) = Some k) keys"
    and "distinct keys'" and "set keys' = dom messages"
  shows "\<exists>msgs. writeDBC fmtG messages keys
                   = Some (dbcHeader @ concat (map
                       (\<lambda>m. ''BO_ '' @ fmtUint (unat (ID m)) @ '' '' @ Name_msg m @ '': ''
                            @ fmtInt (DLC m) @ '' '' @ Node m @ [LF]
                            @ concat (map (writeSignal fmtG) (Signals m)) @ [LF]) msgs))
              \<and> sorted_wrt (<) (map ID msgs)
              \<and> map ID msgs = sort keys
              \<and> set msgs = ran messages
              \<and> length msgs = card (dom messages)
              \<and> writeDBC fmtG messages keys' = writeDBC fmtG messages keys"
proof -
  let ?msgs = "map (\<lambda>k. the (messages k)) (sort keys)"
  have present: "\<forall>k\<in>set (sort keys). messages k \<noteq> None"
    using assms(2) by auto
  have blocks: "writeMessage fmtG =
      (\<lambda>m. ''BO_ '' @ fmtUint (unat (ID m)) @ '' '' @ Name_msg m @ '': ''
           @ fmtInt (DLC m) @ '' '' @ Node m @ [LF]
           @ concat (map (writeSignal fmtG) (Signals m)) @ [LF])"
    by (rule ext) (simp add: writeMessage_def)
  have out: "writeDBC fmtG messages keys
      = Some (dbcHeader @ concat (map (writeMessage fmtG) ?msgs))"
    by (simp add: writeDBC_def writeMessages_present [OF present])
  have idk: "ID (the (messages k)) = k" if "k \<in> set keys" for k
  proof -
    have "map_option ID (messages k) = Some k"
      using assms(3) that by (simp add: list_all_iff)
    then show ?thesis by (cases "messages k") auto
  qed
  have "map ID ?msgs = map (\<lambda>k. k) (sort keys)"
    unfolding map_map by (rule map_cong) (auto simp: idk)
  then have ids: "map ID ?msgs = sort keys" by simp
  have asc: "sorted_wrt (<) (map ID ?msgs)"
    unfolding ids using assms(1) by (simp add: strict_sorted_iff)
  have all: "set ?msgs = ran messages"
    using assms(2) by (force simp: ran_def dom_def image_iff)
  have len: "length ?msgs = card (dom messages)"
    using assms(1,2) distinct_card [of keys] by simp
  have same: "writeDBC fmtG messages keys' = writeDBC fmtG messages keys"
    using sort_of_enumeration [OF assms(4) assms(1)] assms(2,5)
    by (simp add: writeDBC_def)
  show ?thesis
    using out asc ids all len same unfolding blocks by blast
qed

lemma example_dbc_text:
  "writeDBC plainG
     [5 \<mapsto> \<lparr>ID = 5, Name_msg = ''CAN_MSG_5'', DLC = 8, Node = ''VECTOR__XXX'',
             Signals = [\<lparr>Name = ''a'', StartBit = 0, Length = 8, ByteOrder = 1,
                         IsSigned = True, Factor = Parsed ''1'', Offset = Parsed ''0'',
                         Min_sig = Parsed ''0'', Max_sig = Parsed ''0'', Unit = ''u''\<rparr>]\<rparr>,
      3 \<mapsto> \<lparr>ID = 3, Name_msg = ''CAN_MSG_3'', DLC = 4, Node = ''VECTOR__XXX'',
             Signals = [\<lparr>Name = ''c'', StartBit = 16, Length = 12, ByteOrder = 0,
                         IsSigned = False, Factor = Parsed ''0.5'', Offset = Parsed ''-40'',
                         Min_sig = Parsed ''-40'', Max_sig = Parsed ''100'',
                         Unit = ''km/h''\<rparr>]\<rparr>] [5, 3]
   = Some (dbcHeader
       @ ''BO_ 3 CAN_MSG_3: 4 VECTOR__XXX'' @ [CHR 0x0A]
       @ '' SG_ c : 16|12@0+ (0.5,-40) [-40|100] '' @ [CHR 0x22] @ ''km/h'' @ [CHR 0x22]
       @ '' VECTOR__XXX'' @ [CHR 0x0A, CHR 0x0A]
       @ ''BO_ 5 CAN_MSG_5: 8 VECTOR__XXX'' @ [CHR 0x0A]
       @ '' SG_ a : 0|8@1- (1,0) [0|0] '' @ [CHR 0x22] @ ''u'' @ [CHR 0x22]
       @ '' VECTOR__XXX'' @ [CHR 0x0A, CHR 0x0A])"
  by (simp add: writeDBC_def writeMessage_def writeSignal_def fmtUint.simps fmtInt_def
        plainG_def defaultNode_def LF_def DQUOTE_def char_of_eq_iff)

theorem C5_witness:
  "distinct [5, 3 :: 32 word]
   \<and> set [5, 3 :: 32 word] =
       dom [5 \<mapsto> \<lparr>ID = 5, Name_msg = ''CAN_MSG_5'', DLC = 8, Node = ''VECTOR__XXX'',
               Signals = [\<lparr>Name = ''a'', StartBit = 0, Length = 8, ByteOrder = 1,
                           IsSigned = True, Factor = Parsed ''1'', Offset = Parsed ''0'',
                           Min_sig = Parsed ''0'', Max_sig = Parsed ''0'', Unit = ''u''\<rparr>]\<rparr>,
            3 \<mapsto> \<lparr>ID = 3, Name_msg = ''CAN_MSG_3'', DLC = 4, Node = ''VECTOR__XXX'',
               Signals = [\<lparr>Name = ''c'', StartBit = 16, Length = 12, ByteOrder = 0,
                           IsSigned = False, Factor = Parsed ''0.5'', Offset = Parsed ''-40'',
                           Min_sig = Parsed ''-40'', Max_sig = Parsed ''100'',
                           Unit = ''km/h''\<rparr>]\<rparr>]
   \<and> writeDBC plainG
        [5 \<mapsto> \<lparr>ID = 5, Name_msg = ''CAN_MSG_5'', DLC = 8, Node = ''VECTOR__XXX'',
               Signals = [\<lparr>Name = ''a'', StartBit = 0, Length = 8, ByteOrder = 1,
                           IsSigned = True, Factor = Parsed ''1'', Offset = Parsed ''0'',
                           Min_sig = Parsed ''0'', Max_sig = Parsed ''0'', Unit = ''u''\<rparr>]\<rparr>,
         3 \<mapsto> \<lparr>ID = 3, Name_msg = ''CAN_MSG_3'', DLC = 4, Node = ''VECTOR__XXX'',
               Signals = [\<lparr>Name = ''c'', StartBit = 16, Length = 12, ByteOrder = 0,
                           IsSigned = False, Factor = Parsed ''0.5'', Offset = Parsed ''-40'',
                           Min_sig = Parsed ''-40'', Max_sig = Parsed ''100'',
                           Unit = ''km/h''\<rparr>]\<rparr>] [3, 5]
      = Some (dbcHeader
          @ ''BO_ 3 CAN_MSG_3: 4 VECTOR__XXX'' @ [CHR 0x0A]
          @ '' SG_ c : 16|12@0+ (0.5,-40) [-40|100] '' @ [CHR 0x22] @ ''km/h'' @ [CHR 0x22]
          @ '' VECTOR__XXX'' @ [CHR 0x0A, CHR 0x0A]
          @ ''BO_ 5 CAN_MSG_5: 8 VECTOR__XXX'' @ [CHR 0x0A]
          @ '' SG_ a : 0|8@1- (1,0) [0|0] '' @ [CHR 0x22] @ ''u'' @ [CHR 0x22]
          @ '' VECTOR__XXX'' @ [CHR 0x0A, CHR 0x0A])
   \<and> (\<exists>msgs :: Message list.
          map ID msgs = [3, 5] \<and> sorted_wrt (<) (map ID msgs) \<and> length msgs = 2)"
proof -
  let ?M = "[5 \<mapsto> \<lparr>ID = 5, Name_msg = ''CAN_MSG_5'', DLC = 8, Node = ''VECTOR__XXX'',
               Signals = [\<lparr>Name = ''a'', StartBit = 0, Length = 8, ByteOrder = 1,
                           IsSigned = True, Factor = Parsed ''1'', Offset = Parsed ''0'',
                           Min_sig = Parsed ''0'', Max_sig = Parsed ''0'', Unit = ''u''\<rparr>]\<rparr>,
             3 \<mapsto> \<lparr>ID = 3, Name_msg = ''CAN_MSG_3'', DLC = 4, Node = ''VECTOR__XXX'',
               Signals = [\<lparr>Name = ''c'', StartBit = 16, Length = 12, ByteOrder = 0,
                           IsSigned = False, Factor = Parsed ''0.5'', Offset = Parsed ''-40'',
                           Min_sig = Parsed ''-40'', Max_sig = Parsed ''100'',
                           Unit = ''km/h''\<rparr>]\<rparr>] :: 32 word \<rightharpoonup> Message"
  have d: "distinct [5, 3 :: 32 word]" by simp
  have d': "distinct [3, 5 :: 32 word]" by simp
  have s: "set [5, 3] = dom ?M" by auto
  have s': "set [3, 5] = dom ?M" by auto
  have k: "list_all (\<lambda>k. map_option ID (?M k) = Some k) [5, 3]" by simp
  have c: "card (dom ?M) = 2" using s [symmetric] by simp
  have o: "sort [5, 3 :: 32 word] = [3, 5]" by simp
  note t = C5_frame_blocks_ascending_by_id [OF d s k d' s', of plainG]
  from t obtain msgs where m0:
      "writeDBC plainG ?M [5, 3]
         = Some (dbcHeader @ concat (map
             (\<lambda>m. ''BO_ '' @ fmtUint (unat (ID m)) @ '' '' @ Name_msg m @ '': ''
                  @ fmtInt (DLC m) @ '' '' @ Node m @ [LF]
                  @ concat (map (writeSignal plainG) (Signals m)) @ [LF]) msgs))
       \<and> sorted_wrt (<) (map ID msgs)
       \<and> map ID msgs = sort [5, 3]
       \<and> set msgs = ran ?M
       \<and> length msgs = card (dom ?M)
       \<and> writeDBC plainG ?M [3, 5] = writeDBC plainG ?M [5, 3]" ..
  note m = m0 [THEN conjunct2, THEN conjunct2, THEN conjunct1]
    m0 [THEN conjunct2, THEN conjunct1]
    m0 [THEN conjunct2, THEN conjunct2, THEN conjunct2, THEN conjunct2, THEN conjunct1]
    m0 [THEN conjunct2, THEN conjunct2, THEN conjunct2, THEN conjunct2, THEN conjunct2]
  have e: "\<exists>msgs :: Message list. map ID msgs = [3, 5 :: 32 word] \<and> sorted_wrt (<) (map ID msgs)
      \<and> length msgs = 2"
    using m(1,2,3) unfolding o c by (intro exI [of _ msgs] conjI)
  have x: "writeDBC plainG ?M [3, 5] = writeDBC plainG ?M [5, 3]" by (rule m(4))
  show ?thesis
    unfolding x by (intro conjI) (rule d s e example_dbc_text)+
qed

end
